theory Spec2Isabelle
  imports Main "HOL-Library.Sublist"
begin

section \<open>The PubMed client of pymed (src/pymed/api.py)\<close>

text \<open>
  The class \<open>PubMed\<close> wraps the E-utilities of NCBI: a search call (esearch) that can
  leave a result set on the server, and a fetch call (efetch) that pages through it.
  The model below follows the methods of the class one by one. What the class does
  beyond computing values is made explicit:
  \<^item> the attributes of the object are the fields of a record that every method takes
    and returns;
  \<^item> dictionaries are objects with identity (\<open>self.parameters.copy()\<close> makes a new one,
    \<open>parameters["retmode"] = output\<close> writes into the one it was given), so they live in
    a store indexed by addresses;
  \<^item> \<open>datetime.datetime.now()\<close> reads a clock: the n-th reading of a run is \<open>clock e n\<close>,
    and the state counts the readings made so far;
  \<^item> \<open>requests.get\<close> talks to the service: every request is appended to a log, and the
    answer to the n-th request is \<open>server e n\<close>;
  \<^item> an exception is a value \<open>Inl err\<close>; the state at the moment of the raise is
    returned with it;
  \<^item> the polling loop of \<open>_get\<close> may run forever, so every method returns an option and
    \<open>None\<close> stands for a call that never returns.
\<close>

subsection \<open>Window splitting\<close>

text \<open>
  \<^verbatim>\<open>
  def split_range(self, max = 20_000):
      for i in range(0, max, 10_000):
          yield i, min(i + 10_000, max)
  \<close>
  \<open>range(0, max, 10_000)\<close> runs through \<open>0, 10000, 20000, ...\<close> as long as the value is
  below \<open>max\<close>; \<open>split_range_from\<close> is that loop started at \<open>i\<close>.
\<close>

function split_range_from :: "int \<Rightarrow> int \<Rightarrow> (int \<times> int) list" where
  "split_range_from i mx =
     (if i < mx then (i, min (i + 10000) mx) # split_range_from (i + 10000) mx else [])"
  by pat_completeness auto
termination
  by (relation "measure (\<lambda>(i, mx). nat (mx - i))") auto

declare split_range_from.simps [simp del]

definition split_range :: "int \<Rightarrow> (int \<times> int) list" where
  "split_range mx = split_range_from 0 mx"

text \<open>
  The windows that \<open>query\<close> hands to \<open>_getArticlesEnv\<close> (lines 80 to 92): the batches of
  \<open>split_range\<close> above 10,000 results, the single range \<open>(0, max_results)\<close> otherwise.
\<close>

definition query_windows :: "int \<Rightarrow> (int \<times> int) list" where
  "query_windows max_results =
     (if max_results > 10000 then split_range max_results else [(0, max_results)])"

text \<open>
  A list of windows that starts at \<open>lo\<close>, ends at \<open>hi\<close>, where every window is non-empty,
  at most 10,000 wide, and starts where the one before it ended.
\<close>

fun chained :: "int \<Rightarrow> int \<Rightarrow> (int \<times> int) list \<Rightarrow> bool" where
  "chained lo hi [] = (lo = hi)"
| "chained lo hi ((a, b) # ws) = (a = lo \<and> a < b \<and> b - a \<le> 10000 \<and> chained b hi ws)"

subsection \<open>Values, documents, requests\<close>

text \<open>
  A \<open>datetime\<close> is a number of microseconds (its resolution); \<open>timedelta(seconds=1)\<close>
  is 1,000,000 of them.
\<close>

type_synonym time = int

text \<open>
  The values a parameter dictionary holds: strings, integers, and \<open>None\<close> (the \<open>.text\<close>
  of an empty XML element). A dictionary lives in the store at an address.
\<close>

datatype pval = PNone | PStr string | PInt int

type_synonym dict = "string \<rightharpoonup> pval"

type_synonym addr = nat

text \<open>
  An element of a parsed XML document as lxml shows it to the code: its tag, its
  \<open>.text\<close> (\<open>None\<close> when there is none) and its child elements in document order.
\<close>

datatype xml = Element (xtag: string) (xtext: "string option") (xchildren: "xml list")

text \<open>
  A decoded JSON document. Numbers with a fraction are left out: no method reads one.
  An object is the list of its members; a key is looked up with \<open>map_of\<close>.
\<close>

datatype json = JNull | JBool bool | JInt int | JStr string | JArr "json list"
  | JObj "(string \<times> json) list"

text \<open>The exceptions the methods can raise.\<close>

datatype error = HTTPError int | XMLSyntaxError | JSONDecodeError | IndexError
  | AttributeError | TypeError | ValueError

text \<open>What \<open>_get\<close> returns: \<open>response.json()\<close> or \<open>response.text\<close>.\<close>

datatype payload = Json json | Text string

record request =
  url :: string
  params :: dict

record response =
  status_code :: int
  body :: string

text \<open>
  The objects \<open>_getArticlesEnv\<close> yields. The two classes live in other modules of the
  package (\<open>article.py\<close>, \<open>book.py\<close>); a record is the constructor applied to the
  element it was given.
\<close>

datatype pm_record = PubMedArticle xml | PubMedBookArticle xml

definition is_article :: "pm_record \<Rightarrow> bool" where
  "is_article r = (case r of PubMedArticle x \<Rightarrow> True | PubMedBookArticle x \<Rightarrow> False)"

text \<open>The dictionary \<open>{"query_key": ..., "WebEnv": ...}\<close> that \<open>_getPubMedData\<close> returns.\<close>

record session =
  query_key :: "string option"
  WebEnv :: "string option"

text \<open>
  What \<open>query\<close> returns: a list (above 10,000 results the batches are chained into one),
  or the generator object of one call \<open>_getArticlesEnv(query_data, start, end)\<close> whose
  body has not started to run.
\<close>

datatype results = Listed "pm_record list" | Generator session int int

text \<open>
  The world outside the class: the clock, the service, and the library functions
  \<open>lxml.etree.fromstring\<close>, \<open>json.loads\<close> (behind \<open>response.json()\<close>) and the builtin
  \<open>int\<close> on a string; \<open>None\<close> is the exception each of them raises on bad input.
\<close>

record env =
  clock :: "nat \<Rightarrow> time"
  server :: "nat \<Rightarrow> request \<Rightarrow> response"
  fromstring :: "string \<Rightarrow> xml option"
  loads :: "string \<Rightarrow> json option"
  int_of_str :: "string \<Rightarrow> int option"

subsection \<open>The object and the store\<close>

text \<open>
  The first eight fields are the attributes of a \<open>PubMed\<close> object (\<open>parameters\<close> holds
  the address of the template dictionary). The last four are the world as the run has
  left it: the store of dictionaries with its next free address, the number of clock
  readings made, and the requests sent to the service.
\<close>

record PubMed =
  tool :: string
  email :: string
  api_key :: "string option"
  rateLimit :: int
  requestsMade :: "time list"
  parameters :: addr
  query_data :: "session option"
  articles :: "results option"
  heap :: "addr \<Rightarrow> dict"
  next_addr :: addr
  ticks :: nat
  sent :: "request list"

type_synonym 'a outcome = "((error + 'a) \<times> PubMed) option"

definition BASE_URL :: string where
  "BASE_URL = ''https://eutils.ncbi.nlm.nih.gov''"

text \<open>\<open>d.copy()\<close>: a new dictionary with the same items, at a fresh address.\<close>

definition dict_copy :: "addr \<Rightarrow> PubMed \<Rightarrow> addr \<times> PubMed" where
  "dict_copy a s =
     (next_addr s, s\<lparr>heap := (heap s)(next_addr s := heap s a), next_addr := Suc (next_addr s)\<rparr>)"

text \<open>\<open>d[k] = v\<close> on the dictionary at address \<open>a\<close>.\<close>

definition setitem :: "addr \<Rightarrow> string \<Rightarrow> pval \<Rightarrow> PubMed \<Rightarrow> PubMed" where
  "setitem a k v s = s\<lparr>heap := (heap s)(a := (heap s a)(k \<mapsto> v))\<rparr>"

text \<open>
  \<^verbatim>\<open>
  self.parameters = {"tool": tool, "email": email, "db": "pubmed"}
  if api_key:
      self.parameters["api_key"] = api_key
  \<close>
\<close>

definition template :: "string \<Rightarrow> string \<Rightarrow> string option \<Rightarrow> dict" where
  "template tool' email' api_key' =
     (let d = [''tool'' \<mapsto> PStr tool', ''email'' \<mapsto> PStr email', ''db'' \<mapsto> PStr ''pubmed'']
      in case api_key' of
           None \<Rightarrow> d
         | Some k \<Rightarrow> if k = [] then d else d(''api_key'' \<mapsto> PStr k))"

text \<open>\<open>__init__\<close>, in a fresh world: the template is the only dictionary in the store.\<close>

definition init :: "string \<Rightarrow> string \<Rightarrow> string option \<Rightarrow> PubMed" where
  "init tool' email' api_key' =
     \<lparr>tool = tool', email = email', api_key = api_key', rateLimit = 3, requestsMade = [],
      parameters = 0, query_data = None, articles = None,
      heap = (\<lambda>_. Map.empty)(0 := template tool' email' api_key'), next_addr = 1,
      ticks = 0, sent = []\<rparr>"

subsection \<open>The rate limiter\<close>

text \<open>
  \<^verbatim>\<open>
  self._requestsMade = [
      requestTime for requestTime in self._requestsMade
      if requestTime > datetime.datetime.now() - datetime.timedelta(seconds=1)]
  return len(self._requestsMade) > self._rateLimit
  \<close>
  The condition of the comprehension reads the clock once for every element;
  \<open>recent e n\<close> is the comprehension when \<open>n\<close> readings have been made before it.
\<close>

fun recent :: "env \<Rightarrow> nat \<Rightarrow> time list \<Rightarrow> time list" where
  "recent e n [] = []"
| "recent e n (requestTime # rest) =
     (if requestTime > clock e n - 1000000 then requestTime # recent e (Suc n) rest
      else recent e (Suc n) rest)"

definition exceededRateLimit :: "env \<Rightarrow> PubMed \<Rightarrow> bool \<times> PubMed" where
  "exceededRateLimit e s =
     (let s' = s\<lparr>requestsMade := recent e (ticks s) (requestsMade s),
                 ticks := ticks s + length (requestsMade s)\<rparr>
      in (int (length (requestsMade s')) > rateLimit s', s'))"

text \<open>
  The loop at the head of \<open>_get\<close>: \<^verbatim>\<open>while self._exceededRateLimit(): pass\<close>.
\<close>

partial_function (option) get_wait :: "env \<Rightarrow> PubMed \<Rightarrow> PubMed option" where
  "get_wait e s =
     (case exceededRateLimit e s of
        (exceeded, s') \<Rightarrow> if exceeded then get_wait e s' else Some s')"

subsection \<open>The request helper\<close>

text \<open>
  \<^verbatim>\<open>
  def _get(self, url, parameters, output="json"):
      while self._exceededRateLimit(): pass
      parameters["retmode"] = output
      response = requests.get(f"{BASE_URL}{url}", params=parameters)
      response.raise_for_status()
      self._requestsMade.append(datetime.datetime.now())
      if output == "json": return response.json()
      else: return response.text
  \<close>
  \<open>raise_for_status\<close> raises for the status codes 400 to 599. The model covers the
  exchanges that the service answers (no connection failure).
\<close>

definition get :: "env \<Rightarrow> string \<Rightarrow> addr \<Rightarrow> string \<Rightarrow> PubMed \<Rightarrow> payload outcome" where
  "get e path p output s =
     (case get_wait e s of
        None \<Rightarrow> None
      | Some s1 \<Rightarrow>
          let s2 = setitem p ''retmode'' (PStr output) s1;
              req = \<lparr>url = BASE_URL @ path, params = heap s2 p\<rparr>;
              resp = server e (length (sent s2)) req;
              s3 = s2\<lparr>sent := sent s2 @ [req]\<rparr>
          in if 400 \<le> status_code resp \<and> status_code resp < 600
             then Some (Inl (HTTPError (status_code resp)), s3)
             else
               let s4 = s3\<lparr>requestsMade := requestsMade s3 @ [clock e (ticks s3)],
                           ticks := Suc (ticks s3)\<rparr>
               in if output = ''json''
                  then (case loads e (body resp) of
                          None \<Rightarrow> Some (Inl JSONDecodeError, s4)
                        | Some j \<Rightarrow> Some (Inr (Json j), s4))
                  else Some (Inr (Text (body resp)), s4))"

text \<open>Sequencing: an exception or a call that never returns ends the sequence.\<close>

definition and_then :: "'a outcome \<Rightarrow> ('a \<Rightarrow> PubMed \<Rightarrow> 'b outcome) \<Rightarrow> 'b outcome" where
  "and_then m f =
     (case m of
        None \<Rightarrow> None
      | Some (Inl err, s) \<Rightarrow> Some (Inl err, s)
      | Some (Inr x, s) \<Rightarrow> f x s)"

subsection \<open>Reading XML\<close>

text \<open>
  \<open>root.iter(t)\<close>: the root itself and its descendants, in document order, that have the
  tag \<open>t\<close>. \<open>root.xpath(".//t")\<close>: the descendants of the root with the tag \<open>t\<close>, in
  document order (the root itself is not among them).
\<close>

fun iter :: "string \<Rightarrow> xml \<Rightarrow> xml list" where
  "iter t (Element tg tx cs) =
     (if tg = t then [Element tg tx cs] else []) @ concat (map (iter t) cs)"

definition xpath_descendants :: "string \<Rightarrow> xml \<Rightarrow> xml list" where
  "xpath_descendants t root = concat (map (iter t) (xchildren root))"

text \<open>
  Document order itself: all the elements of a tree, each before its children, the
  children from first to last.
\<close>

fun nodes :: "xml \<Rightarrow> xml list" where
  "nodes (Element tg tx cs) = Element tg tx cs # concat (map nodes cs)"

subsection \<open>Establishing the session\<close>

text \<open>
  \<^verbatim>\<open>
  def _getPubMedData(self, query, max_results):
      parameters = self.parameters.copy()
      parameters["term"] = query
      parameters["usehistory"] = "y"
      parameters["retmax"] = max_results
      response = self._get(url="/entrez/eutils/esearch.fcgi",
                           parameters=parameters, output="xml").encode("utf-8")
      root = xml.fromstring(response)
      query_key = root.xpath(".//QueryKey")[0].text
      WebEnv = root.xpath(".//WebEnv")[0].text
      return {"query_key": query_key, "WebEnv": WebEnv}
  \<close>
  Indexing an empty list with \<open>[0]\<close> raises \<open>IndexError\<close>. A string of the model is
  already a sequence of bytes, so \<open>encode\<close> changes nothing.
\<close>

definition getPubMedData :: "env \<Rightarrow> string \<Rightarrow> int \<Rightarrow> PubMed \<Rightarrow> session outcome" where
  "getPubMedData e query' max_results s =
     (let (p, s1) = dict_copy (parameters s) s;
          s2 = setitem p ''term'' (PStr query') s1;
          s3 = setitem p ''usehistory'' (PStr ''y'') s2;
          s4 = setitem p ''retmax'' (PInt max_results) s3
      in and_then (get e ''/entrez/eutils/esearch.fcgi'' p ''xml'' s4) (\<lambda>response s5.
           case response of
             Json j \<Rightarrow> Some (Inl AttributeError, s5)
           | Text t \<Rightarrow>
               (case fromstring e t of
                  None \<Rightarrow> Some (Inl XMLSyntaxError, s5)
                | Some root \<Rightarrow>
                    (case xpath_descendants ''QueryKey'' root of
                       [] \<Rightarrow> Some (Inl IndexError, s5)
                     | k # _ \<Rightarrow>
                         (case xpath_descendants ''WebEnv'' root of
                            [] \<Rightarrow> Some (Inl IndexError, s5)
                          | w # _ \<Rightarrow>
                              Some (Inr \<lparr>query_key = xtext k, WebEnv = xtext w\<rparr>, s5))))))"

subsection \<open>Fetching one window\<close>

text \<open>
  \<^verbatim>\<open>
  def _getArticlesEnv(self, query_data, start=0, end=100):
      parameters = self.parameters.copy()
      parameters["query_key"] = query_data["query_key"]
      parameters["WebEnv"] = query_data["WebEnv"]
      parameters["retmax"] = end
      parameters["retstart"] = start
      response = self._get(url="/entrez/eutils/efetch.fcgi",
                           parameters=parameters, output="xml")
      root = xml.fromstring(response)
      for article in root.iter("PubmedArticle"):
          yield PubMedArticle(xml_element=article)
      for book in root.iter("PubmedBookArticle"):
          yield PubMedBookArticle(xml_element=book)
  \<close>
  The method is a generator: calling it runs nothing. \<open>getArticlesEnv\<close> is its body run
  to the end, as a consumer of the generator does, with the records it yields collected
  in a list. Every statement that can raise comes before the first \<open>yield\<close>.
\<close>

definition token :: "string option \<Rightarrow> pval" where
  "token t = (case t of None \<Rightarrow> PNone | Some v \<Rightarrow> PStr v)"

definition getArticlesEnv ::
  "env \<Rightarrow> session \<Rightarrow> int \<Rightarrow> int \<Rightarrow> PubMed \<Rightarrow> (pm_record list) outcome" where
  "getArticlesEnv e qd start end' s =
     (let (p, s1) = dict_copy (parameters s) s;
          s2 = setitem p ''query_key'' (token (query_key qd)) s1;
          s3 = setitem p ''WebEnv'' (token (WebEnv qd)) s2;
          s4 = setitem p ''retmax'' (PInt end') s3;
          s5 = setitem p ''retstart'' (PInt start) s4
      in and_then (get e ''/entrez/eutils/efetch.fcgi'' p ''xml'' s5) (\<lambda>response s6.
           case response of
             Json j \<Rightarrow> Some (Inl TypeError, s6)
           | Text t \<Rightarrow>
               (case fromstring e t of
                  None \<Rightarrow> Some (Inl XMLSyntaxError, s6)
                | Some root \<Rightarrow>
                    Some (Inr (map PubMedArticle (iter ''PubmedArticle'' root) @
                               map PubMedBookArticle (iter ''PubmedBookArticle'' root)), s6))))"

text \<open>Running a value returned by \<open>query\<close> to its end (\<open>list(results)\<close>).\<close>

fun consume :: "env \<Rightarrow> results \<Rightarrow> PubMed \<Rightarrow> (pm_record list) outcome" where
  "consume e (Listed rs) s = Some (Inr rs, s)"
| "consume e (Generator qd start end') s = getArticlesEnv e qd start end' s"

subsection \<open>The query\<close>

text \<open>
  \<^verbatim>\<open>
  list(itertools.chain.from_iterable(
      self._getArticlesEnv(query_data=self.query_data, start=start, end=end)
      for start, end in self.split_range(max=max_results)))
  \<close>
  One generator per window, each run to its end before the next one is made.
\<close>

fun chain_windows ::
  "env \<Rightarrow> session \<Rightarrow> (int \<times> int) list \<Rightarrow> PubMed \<Rightarrow> (pm_record list) outcome" where
  "chain_windows e qd [] s = Some (Inr [], s)"
| "chain_windows e qd ((start, end') # ws) s =
     and_then (getArticlesEnv e qd start end' s) (\<lambda>rs s1.
       and_then (chain_windows e qd ws s1) (\<lambda>rest s2. Some (Inr (rs @ rest), s2)))"

text \<open>
  \<^verbatim>\<open>
  def query(self, query, max_results=100):
      self.query_data = self._getPubMedData(query=query, max_results=max_results)
      if max_results > 10_000:
          self.articles = list(itertools.chain.from_iterable(... split_range ...))
      else:
          self.articles = self._getArticlesEnv(
              query_data=self.query_data, start=0, end=max_results)
      return self.articles
  \<close>
\<close>

definition query :: "env \<Rightarrow> string \<Rightarrow> int \<Rightarrow> PubMed \<Rightarrow> results outcome" where
  "query e query' max_results s =
     and_then (getPubMedData e query' max_results s) (\<lambda>qd s1.
       let s2 = s1\<lparr>query_data := Some qd\<rparr>
       in if max_results > 10000
          then and_then (chain_windows e qd (split_range max_results) s2) (\<lambda>rs s3.
                 Some (Inr (Listed rs), s3\<lparr>articles := Some (Listed rs)\<rparr>))
          else Some (Inr (Generator qd 0 max_results),
                     s2\<lparr>articles := Some (Generator qd 0 max_results)\<rparr>))"

subsection \<open>Counting the matches\<close>

text \<open>
  \<open>int(x)\<close> on a value decoded from JSON: \<open>TypeError\<close> on \<open>None\<close>, a list or a dict,
  \<open>ValueError\<close> on a string that is not a number.
\<close>

definition py_int :: "env \<Rightarrow> json \<Rightarrow> error + int" where
  "py_int e v =
     (case v of
        JInt n \<Rightarrow> Inr n
      | JBool b \<Rightarrow> Inr (if b then 1 else 0)
      | JStr t \<Rightarrow> (case int_of_str e t of None \<Rightarrow> Inl ValueError | Some n \<Rightarrow> Inr n)
      | JNull \<Rightarrow> Inl TypeError
      | JArr vs \<Rightarrow> Inl TypeError
      | JObj kvs \<Rightarrow> Inl TypeError)"

text \<open>
  \<open>response.get("esearchresult", {}).get("count")\<close>: \<open>get\<close> exists on a dict only
  (\<open>AttributeError\<close> otherwise) and gives \<open>None\<close> for a key that is missing.
\<close>

definition count_field :: "json \<Rightarrow> error + json" where
  "count_field j =
     (case j of
        JObj members \<Rightarrow>
          (case map_of members ''esearchresult'' of
             None \<Rightarrow> Inr JNull
           | Some (JObj res) \<Rightarrow>
               (case map_of res ''count'' of None \<Rightarrow> Inr JNull | Some c \<Rightarrow> Inr c)
           | Some _ \<Rightarrow> Inl AttributeError)
      | _ \<Rightarrow> Inl AttributeError)"

text \<open>
  \<^verbatim>\<open>
  def getTotalResultsCount(self, query):
      parameters = self.parameters.copy()
      parameters["term"] = query
      parameters["retmax"] = 1
      response = self._get(url="/entrez/eutils/esearch.fcgi", parameters=parameters)
      return int(response.get("esearchresult", {}).get("count"))
  \<close>
\<close>

definition getTotalResultsCount :: "env \<Rightarrow> string \<Rightarrow> PubMed \<Rightarrow> int outcome" where
  "getTotalResultsCount e query' s =
     (let (p, s1) = dict_copy (parameters s) s;
          s2 = setitem p ''term'' (PStr query') s1;
          s3 = setitem p ''retmax'' (PInt 1) s2
      in and_then (get e ''/entrez/eutils/esearch.fcgi'' p ''json'' s3) (\<lambda>response s4.
           case response of
             Text t \<Rightarrow> Some (Inl AttributeError, s4)
           | Json j \<Rightarrow>
               (case count_field j of
                  Inl err \<Rightarrow> Some (Inl err, s4)
                | Inr c \<Rightarrow>
                    (case py_int e c of
                       Inl err \<Rightarrow> Some (Inl err, s4)
                     | Inr n \<Rightarrow> Some (Inr n, s4)))))"

subsection \<open>Runs of a client\<close>

text \<open>
  A use of one object: a sequence of method calls. A \<open>Query\<close> is the call of \<open>query\<close>
  and the consumption of what it returns; \<open>ArticlesEnv\<close> is a generator of
  \<open>_getArticlesEnv\<close> run to its end. The caller catches an exception and goes on with
  the object as the raise left it.
\<close>

datatype call = Query string int | Count string | PubMedData string int
  | ArticlesEnv session int int

fun run_call :: "env \<Rightarrow> call \<Rightarrow> PubMed \<Rightarrow> PubMed option" where
  "run_call e (Query q n) s =
     (case query e q n s of
        None \<Rightarrow> None
      | Some (Inl err, s1) \<Rightarrow> Some s1
      | Some (Inr rs, s1) \<Rightarrow> map_option snd (consume e rs s1))"
| "run_call e (Count q) s = map_option snd (getTotalResultsCount e q s)"
| "run_call e (PubMedData q n) s = map_option snd (getPubMedData e q n s)"
| "run_call e (ArticlesEnv qd a b) s = map_option snd (getArticlesEnv e qd a b s)"

fun run_calls :: "env \<Rightarrow> call list \<Rightarrow> PubMed \<Rightarrow> PubMed option" where
  "run_calls e [] s = Some s"
| "run_calls e (c # cs) s =
     (case run_call e c s of None \<Rightarrow> None | Some s1 \<Rightarrow> run_calls e cs s1)"

text \<open>
  Time goes on: every instant is reached by all the readings of the clock from some
  reading on. Under a clock that stands still the polling loop can run forever.
\<close>

definition clock_advances :: "env \<Rightarrow> bool" where
  "clock_advances e = (\<forall>t. \<exists>N. \<forall>n\<ge>N. t \<le> clock e n)"

text \<open>
  A request read by the two fields the service pages with, and the same pair for a
  window \<open>(start, end)\<close> sent as \<open>retstart = start\<close>, \<open>retmax = end\<close>.
\<close>

definition window_of :: "request \<Rightarrow> pval option \<times> pval option" where
  "window_of r = (params r ''retstart'', params r ''retmax'')"

definition fetch_window :: "int \<times> int \<Rightarrow> pval option \<times> pval option" where
  "fetch_window w = (Some (PInt (fst w)), Some (PInt (snd w)))"

text \<open>
  What a method call leaves alone, from the state \<open>s\<close> before it to the state \<open>s'\<close>
  after it: the reference to the template, the rate ceiling, and every dictionary that
  was in the store before the call (a call only adds dictionaries).
\<close>

definition untouched :: "PubMed \<Rightarrow> PubMed \<Rightarrow> bool" where
  "untouched s s' =
     (parameters s' = parameters s \<and> rateLimit s' = rateLimit s
      \<and> next_addr s \<le> next_addr s' \<and> (\<forall>a<next_addr s. heap s' a = heap s a))"

subsection \<open>A sample world\<close>

text \<open>
  A service that answers every search with query key \<open>1\<close> in the environment
  \<open>MCID_demo\<close>, every count request with 4231 matches and one id, and every fetch with
  a document that holds a book between two articles. A clock reading takes 0.4 seconds.
\<close>

definition demo_search :: xml where
  "demo_search =
     Element ''eSearchResult'' None
       [Element ''Count'' (Some ''4231'') [],
        Element ''QueryKey'' (Some ''1'') [],
        Element ''WebEnv'' (Some ''MCID_demo'') []]"

definition demo_article :: "string \<Rightarrow> xml" where
  "demo_article pmid =
     Element ''PubmedArticle'' None
       [Element ''MedlineCitation'' None [Element ''PMID'' (Some pmid) []]]"

definition demo_book :: "string \<Rightarrow> xml" where
  "demo_book pmid =
     Element ''PubmedBookArticle'' None
       [Element ''BookDocument'' None [Element ''PMID'' (Some pmid) []]]"

definition demo_fetch :: xml where
  "demo_fetch =
     Element ''PubmedArticleSet'' None
       [demo_article ''101'', demo_book ''202'', demo_article ''303'']"

definition demo_count :: json where
  "demo_count =
     JObj [(''header'', JObj [(''type'', JStr ''esearch'')]),
           (''esearchresult'',
              JObj [(''count'', JStr ''4231''), (''retmax'', JStr ''1''),
                    (''idlist'', JArr [JStr ''38000001''])])]"

definition demo_server :: "nat \<Rightarrow> request \<Rightarrow> response" where
  "demo_server n r =
     (if url r = BASE_URL @ ''/entrez/eutils/efetch.fcgi''
      then \<lparr>status_code = 200, body = ''<PubmedArticleSet/>''\<rparr>
      else if url r = BASE_URL @ ''/entrez/eutils/esearch.fcgi''
      then (if params r ''retmode'' = Some (PStr ''json'')
            then \<lparr>status_code = 200, body = ''{count}''\<rparr>
            else \<lparr>status_code = 200, body = ''<eSearchResult/>''\<rparr>)
      else \<lparr>status_code = 404, body = []\<rparr>)"

definition demo_env :: env where
  "demo_env =
     \<lparr>clock = (\<lambda>n. 400000 * int n),
      server = demo_server,
      fromstring = (\<lambda>b. if b = ''<eSearchResult/>'' then Some demo_search
                         else if b = ''<PubmedArticleSet/>'' then Some demo_fetch
                         else None),
      loads = (\<lambda>b. if b = ''{count}'' then Some demo_count else None),
      int_of_str = (\<lambda>t. if t = ''4231'' then Some 4231 else None)\<rparr>"

text \<open>The same world with a clock that stands still.\<close>

definition frozen_env :: env where
  "frozen_env = demo_env\<lparr>clock := (\<lambda>n. 0)\<rparr>"

text \<open>The same world with a service that refuses every request (429).\<close>

definition refusing_env :: env where
  "refusing_env = demo_env\<lparr>server := (\<lambda>n r. \<lparr>status_code = 429, body = []\<rparr>)\<rparr>"

text \<open>A service whose search answer has no \<open>WebEnv\<close> element (an error payload).\<close>

definition tokenless_env :: env where
  "tokenless_env =
     demo_env\<lparr>fromstring := (\<lambda>b. Some (Element ''eSearchResult'' None
        [Element ''QueryKey'' (Some ''1'') [], Element ''ERROR'' (Some ''busy'') []]))\<rparr>"

definition demo_client :: PubMed where
  "demo_client = init ''my_tool'' ''my_email@example.com'' None"

section \<open>Properties of the window list\<close>

lemma chained_split_range_from:
  "i \<le> mx \<Longrightarrow> chained i mx (split_range_from i mx)"
proof (induction i mx rule: split_range_from.induct)
  case (1 i mx)
  show ?case
  proof (cases "i < mx")
    case True
    then have "chained (min (i + 10000) mx) mx (split_range_from (i + 10000) mx)"
    proof (cases "i + 10000 \<le> mx")
      case True
      with 1 \<open>i < mx\<close> show ?thesis by (simp add: min_def)
    next
      case False
      then have "split_range_from (i + 10000) mx = []"
        by (subst split_range_from.simps) simp
      with False show ?thesis by (simp add: min_def)
    qed
    with True show ?thesis
      by (subst split_range_from.simps) (simp add: min_def)
  next
    case False
    with 1 show ?thesis by (subst split_range_from.simps) simp
  qed
qed

lemma chained_le: "chained lo hi ws \<Longrightarrow> lo \<le> hi"
proof (induction ws arbitrary: lo)
  case Nil
  then show ?case by simp
next
  case (Cons w ws)
  obtain a b where w: "w = (a, b)" by (cases w)
  from Cons.prems w have ab: "a = lo" "a < b" and rest: "chained b hi ws" by simp_all
  from Cons.IH [OF rest] ab show ?case by simp
qed

lemma chained_union:
  "chained lo hi ws \<Longrightarrow> (\<Union>(a, b) \<in> set ws. {a..<b}) = {lo..<hi}"
proof (induction ws arbitrary: lo)
  case Nil
  then show ?case by simp
next
  case (Cons w ws)
  obtain a b where w: "w = (a, b)" by (cases w)
  from Cons.prems w have ab: "a = lo" "a < b" and rest: "chained b hi ws" by simp_all
  from chained_le [OF rest] have "b \<le> hi" .
  with ab Cons.IH [OF rest] w show ?case by auto
qed

lemma chained_starts_ge: "chained lo hi ws \<Longrightarrow> \<forall>w \<in> set ws. lo \<le> fst w"
proof (induction ws arbitrary: lo)
  case Nil
  then show ?case by simp
next
  case (Cons w ws)
  obtain a b where w: "w = (a, b)" by (cases w)
  from Cons.prems w have ab: "a = lo" "a < b" and rest: "chained b hi ws" by simp_all
  from Cons.IH [OF rest] ab w show ?case by fastforce
qed

lemma chained_ascending: "chained lo hi ws \<Longrightarrow> sorted_wrt (\<lambda>v w. snd v \<le> fst w) ws"
proof (induction ws arbitrary: lo)
  case Nil
  then show ?case by simp
next
  case (Cons w ws)
  obtain a b where w: "w = (a, b)" by (cases w)
  from Cons.prems w have rest: "chained b hi ws" by simp
  from chained_starts_ge [OF rest] Cons.IH [OF rest] w show ?case by simp
qed

lemma chained_width: "chained lo hi ws \<Longrightarrow> \<forall>(a, b) \<in> set ws. a < b \<and> b - a \<le> 10000"
proof (induction ws arbitrary: lo)
  case Nil
  then show ?case by simp
next
  case (Cons w ws)
  obtain a b where w: "w = (a, b)" by (cases w)
  from Cons.prems w have ab: "a < b" "b - a \<le> 10000" and rest: "chained b hi ws" by simp_all
  from Cons.IH [OF rest] ab w show ?case by simp
qed

lemma chained_split_range: "0 \<le> m \<Longrightarrow> chained 0 m (split_range m)"
  using chained_split_range_from [of 0 m] by (simp add: split_range_def)

lemma chained_query_windows: "0 < m \<Longrightarrow> chained 0 m (query_windows m)"
  using chained_split_range [of m] by (simp add: query_windows_def)

lemma split_range_small: "0 < m \<Longrightarrow> m \<le> 10000 \<Longrightarrow> split_range m = [(0, m)]"
  unfolding split_range_def
  by (subst split_range_from.simps, subst split_range_from.simps) simp

text \<open>
  C4. For every \<open>max_results > 0\<close> the windows that \<open>query\<close> fetches (which are the
  windows of \<open>split_range max_results\<close>) partition \<open>[0, max_results)\<close>: the first starts
  at 0, each starts where the one before it ended, the last ends at \<open>max_results\<close>
  (\<open>chained\<close>); every window is non-empty and spans at most 10,000 indices; a window
  ends before any later one starts (ascending, no overlap); and the union of the
  windows is \<open>[0, max_results)\<close>.
\<close>

theorem query_windows_partition:
  assumes "0 < max_results"
  shows "query_windows max_results = split_range max_results
    \<and> chained 0 max_results (query_windows max_results)
    \<and> (\<forall>(a, b) \<in> set (query_windows max_results). a < b \<and> b - a \<le> 10000)
    \<and> sorted_wrt (\<lambda>v w. snd v \<le> fst w) (query_windows max_results)
    \<and> (\<Union>(a, b) \<in> set (query_windows max_results). {a..<b}) = {0..<max_results}"
proof -
  have c: "chained 0 max_results (query_windows max_results)"
    using assms by (rule chained_query_windows)
  have "query_windows max_results = split_range max_results"
    using assms split_range_small [of max_results] by (simp add: query_windows_def)
  with c chained_width [OF c] chained_ascending [OF c] chained_union [OF c]
  show ?thesis by simp
qed

theorem query_windows_partition_witness:
  "query_windows 25000 = [(0, 10000), (10000, 20000), (20000, 25000)]
    \<and> query_windows 25000 = split_range 25000
    \<and> chained 0 25000 (query_windows 25000)
    \<and> sorted_wrt (\<lambda>v w. snd v \<le> fst w) (query_windows 25000)
    \<and> (\<Union>(a, b) \<in> set (query_windows 25000). {a..<b}) = {0..<25000}"
proof -
  have "(0::int) < 25000" by simp
  from query_windows_partition [OF this]
  show ?thesis
    by (simp add: query_windows_def split_range_def split_range_from.simps)
qed

section \<open>The rate limiter and the request helper\<close>

lemma subseq_recent: "subseq (recent e n rs) rs"
  by (induction rs arbitrary: n) auto

lemma set_recent: "set (recent e n rs) \<subseteq> set rs"
  by (induction rs arbitrary: n) auto

lemma recent_empty:
  "(\<And>r n. r \<in> set rs \<Longrightarrow> k \<le> n \<Longrightarrow> r + 1000000 \<le> clock e n) \<Longrightarrow> recent e k rs = []"
proof (induction rs arbitrary: k)
  case Nil
  then show ?case by simp
next
  case (Cons r rs)
  have "r + 1000000 \<le> clock e k" using Cons.prems [of r k] by simp
  moreover have "recent e (Suc k) rs = []"
    using Cons.prems by (intro Cons.IH) auto
  ultimately show ?case by simp
qed

lemma exceededRateLimit_eq:
  "exceededRateLimit e s =
     (rateLimit s < int (length (recent e (ticks s) (requestsMade s))),
      s\<lparr>requestsMade := recent e (ticks s) (requestsMade s),
        ticks := ticks s + length (requestsMade s)\<rparr>)"
  by (simp add: exceededRateLimit_def Let_def)

lemma get_wait_Some:
  assumes "get_wait e s = Some s'"
  shows "(\<exists>rm t. s' = s\<lparr>requestsMade := rm, ticks := t\<rparr>)
    \<and> subseq (requestsMade s') (requestsMade s)
    \<and> int (length (requestsMade s')) \<le> rateLimit s
    \<and> ticks s \<le> ticks s'"
proof (rule get_wait.raw_induct [where P = "\<lambda>e s s'.
    (\<exists>rm t. s' = s\<lparr>requestsMade := rm, ticks := t\<rparr>)
    \<and> subseq (requestsMade s') (requestsMade s)
    \<and> int (length (requestsMade s')) \<le> rateLimit s
    \<and> ticks s \<le> ticks s'", OF _ assms])
  fix poll :: "env \<Rightarrow> PubMed \<Rightarrow> PubMed option" and e s s'
  assume IH: "\<And>e s s'. poll e s = Some s' \<Longrightarrow>
    (\<exists>rm t. s' = s\<lparr>requestsMade := rm, ticks := t\<rparr>)
    \<and> subseq (requestsMade s') (requestsMade s)
    \<and> int (length (requestsMade s')) \<le> rateLimit s
    \<and> ticks s \<le> ticks s'"
  assume step: "(case exceededRateLimit e s of
      (exceeded, s') \<Rightarrow> if exceeded then poll e s' else Some s') = Some s'"
  let ?s1 = "s\<lparr>requestsMade := recent e (ticks s) (requestsMade s),
        ticks := ticks s + length (requestsMade s)\<rparr>"
  show "(\<exists>rm t. s' = s\<lparr>requestsMade := rm, ticks := t\<rparr>)
    \<and> subseq (requestsMade s') (requestsMade s)
    \<and> int (length (requestsMade s')) \<le> rateLimit s
    \<and> ticks s \<le> ticks s'"
  proof (cases "rateLimit s < int (length (recent e (ticks s) (requestsMade s)))")
    case True
    with step have "poll e ?s1 = Some s'"
      by (simp add: exceededRateLimit_eq)
    from IH [OF this] obtain rm t where eq: "s' = ?s1\<lparr>requestsMade := rm, ticks := t\<rparr>"
      and sub: "subseq (requestsMade s') (requestsMade ?s1)"
      and le: "int (length (requestsMade s')) \<le> rateLimit ?s1"
      and tk: "ticks ?s1 \<le> ticks s'" by blast
    from eq have "s' = s\<lparr>requestsMade := rm, ticks := t\<rparr>" by simp
    moreover from sub subseq_recent [of e "ticks s" "requestsMade s"]
    have "subseq (requestsMade s') (requestsMade s)"
      by (simp add: subseq_order.order_trans [of "requestsMade s'" "recent e (ticks s) (requestsMade s)"])
    moreover from le have "int (length (requestsMade s')) \<le> rateLimit s" by simp
    moreover from tk have "ticks s \<le> ticks s'" by simp
    ultimately show ?thesis by blast
  next
    case False
    with step have "s' = ?s1" by (simp add: exceededRateLimit_eq)
    with False show ?thesis
      using subseq_recent [of e "ticks s" "requestsMade s"] by auto
  qed
qed

lemma late_readings:
  "clock_advances e \<Longrightarrow> \<exists>N. \<forall>r \<in> set rs. \<forall>n\<ge>N. r + 1000000 \<le> clock e n"
proof (induction rs)
  case Nil
  then show ?case by simp
next
  case (Cons r rs)
  then obtain N where N: "\<forall>r \<in> set rs. \<forall>n\<ge>N. r + 1000000 \<le> clock e n" by blast
  from Cons.prems obtain M where M: "\<forall>n\<ge>M. r + 1000000 \<le> clock e n"
    unfolding clock_advances_def by blast
  have "\<forall>x \<in> set (r # rs). \<forall>n\<ge>max N M. x + 1000000 \<le> clock e n"
    using N M by auto
  then show ?case by blast
qed

lemma get_wait_returns_aux:
  assumes "\<forall>r \<in> set (requestsMade s). \<forall>n\<ge>N. r + 1000000 \<le> clock e n"
    and "0 \<le> rateLimit s"
  shows "\<exists>s'. get_wait e s = Some s'"
  using assms
proof (induction "N - ticks s" arbitrary: s rule: less_induct)
  case less
  let ?rs = "recent e (ticks s) (requestsMade s)"
  let ?s1 = "s\<lparr>requestsMade := ?rs, ticks := ticks s + length (requestsMade s)\<rparr>"
  show ?case
  proof (cases "rateLimit s < int (length ?rs)")
    case False
    then show ?thesis
      by (subst get_wait.simps) (simp add: exceededRateLimit_eq)
  next
    case True
    with less.prems(2) have ne: "?rs \<noteq> []" by auto
    have "ticks s < N"
    proof (rule ccontr)
      assume "\<not> ticks s < N"
      then have "recent e (ticks s) (requestsMade s) = []"
        using less.prems(1) by (intro recent_empty) auto
      with ne show False by simp
    qed
    moreover from ne have "requestsMade s \<noteq> []" by auto
    ultimately have dec: "N - ticks ?s1 < N - ticks s" by (cases "requestsMade s") auto
    have "\<forall>r \<in> set (requestsMade ?s1). \<forall>n\<ge>N. r + 1000000 \<le> clock e n"
      using less.prems(1) set_recent [of e "ticks s" "requestsMade s"] by auto
    moreover have "0 \<le> rateLimit ?s1" using less.prems(2) by simp
    ultimately obtain s' where "get_wait e ?s1 = Some s'"
      using less.hyps [OF dec] by blast
    with True show ?thesis
      by (subst get_wait.simps) (simp add: exceededRateLimit_eq)
  qed
qed

lemma get_wait_returns:
  "clock_advances e \<Longrightarrow> 0 \<le> rateLimit s \<Longrightarrow> \<exists>s'. get_wait e s = Some s'"
  using late_readings [of e "requestsMade s"] get_wait_returns_aux [of s _ e] by blast

lemma get_Some:
  assumes "get e path p out s = Some (r, s')"
  shows "\<exists>s1. get_wait e s = Some s1
    \<and> sent s' = sent s @ [\<lparr>url = BASE_URL @ path, params = (heap s p)(''retmode'' \<mapsto> PStr out)\<rparr>]
    \<and> heap s' = (heap s)(p := (heap s p)(''retmode'' \<mapsto> PStr out))
    \<and> parameters s' = parameters s \<and> next_addr s' = next_addr s \<and> rateLimit s' = rateLimit s
    \<and> query_data s' = query_data s \<and> articles s' = articles s
    \<and> (let resp = server e (length (sent s))
                 \<lparr>url = BASE_URL @ path, params = (heap s p)(''retmode'' \<mapsto> PStr out)\<rparr>
       in if 400 \<le> status_code resp \<and> status_code resp < 600
          then r = Inl (HTTPError (status_code resp)) \<and> requestsMade s' = requestsMade s1
               \<and> ticks s' = ticks s1
          else requestsMade s' = requestsMade s1 @ [clock e (ticks s1)] \<and> ticks s' = Suc (ticks s1)
               \<and> r = (if out = ''json''
                      then (case loads e (body resp) of
                              None \<Rightarrow> Inl JSONDecodeError | Some j \<Rightarrow> Inr (Json j))
                      else Inr (Text (body resp))))"
proof -
  from assms obtain s1 where w: "get_wait e s = Some s1"
    by (auto simp: get_def split: option.splits)
  from get_wait_Some [OF w] obtain rm t where s1: "s1 = s\<lparr>requestsMade := rm, ticks := t\<rparr>"
    by blast
  from assms w show ?thesis
    unfolding s1 get_def
    by (auto simp: Let_def setitem_def split: if_splits option.splits)
qed

lemma get_returns:
  assumes "clock_advances e" "0 \<le> rateLimit s"
  shows "\<exists>r s'. get e path p out s = Some (r, s')"
proof -
  from get_wait_returns [OF assms] obtain s1 where "get_wait e s = Some s1" by blast
  then show ?thesis
    by (simp add: get_def Let_def split: option.splits)
qed

text \<open>One pass of the loop, as rewrite rules for a state that is known.\<close>

lemma get_wait_immediate:
  "int (length (recent e (ticks s) (requestsMade s))) \<le> rateLimit s \<Longrightarrow>
     get_wait e s = Some (s\<lparr>requestsMade := recent e (ticks s) (requestsMade s),
                            ticks := ticks s + length (requestsMade s)\<rparr>)"
  by (subst get_wait.simps) (simp add: exceededRateLimit_eq)

lemma get_wait_again:
  "rateLimit s < int (length (recent e (ticks s) (requestsMade s))) \<Longrightarrow>
     get_wait e s = get_wait e (s\<lparr>requestsMade := recent e (ticks s) (requestsMade s),
                                    ticks := ticks s + length (requestsMade s)\<rparr>)"
  by (subst get_wait.simps) (simp add: exceededRateLimit_eq)

text \<open>
  The check lets a request through when it finds at most \<open>_rateLimit\<close> timestamps, so
  also when it finds exactly that many, all of them younger than one second: one pass
  of the check, whatever the clock says.
\<close>

lemma get_wait_at_ceiling:
  assumes "int (length (requestsMade s)) \<le> rateLimit s"
  shows "get_wait e s = Some (s\<lparr>requestsMade := recent e (ticks s) (requestsMade s),
                                 ticks := ticks s + length (requestsMade s)\<rparr>)"
proof -
  have "length (recent e (ticks s) (requestsMade s)) \<le> length (requestsMade s)"
    using subseq_recent [of e "ticks s" "requestsMade s"] by (rule list_emb_length)
  with assms show ?thesis by (intro get_wait_immediate) simp
qed

text \<open>Under a clock that stands still, four timestamps of this instant hold a check forever.\<close>

lemma get_wait_frozen:
  assumes "clock e = (\<lambda>n. 0)" "requestsMade s = [0, 0, 0, 0]" "rateLimit s = 3"
  shows "get_wait e s = None"
proof (rule ccontr)
  assume "get_wait e s \<noteq> None"
  then obtain s' where w: "get_wait e s = Some s'" by blast
  have "clock e = (\<lambda>n. 0) \<longrightarrow> requestsMade s = [0, 0, 0, 0] \<longrightarrow> rateLimit s = 3 \<longrightarrow> False"
  proof (rule get_wait.raw_induct [where P = "\<lambda>e s s'.
      clock e = (\<lambda>n. 0) \<longrightarrow> requestsMade s = [0, 0, 0, 0] \<longrightarrow> rateLimit s = 3 \<longrightarrow> False", OF _ w])
    fix poll :: "env \<Rightarrow> PubMed \<Rightarrow> PubMed option" and e s s'
    assume IH: "\<And>e s s'. poll e s = Some s' \<Longrightarrow>
      clock e = (\<lambda>n. 0) \<longrightarrow> requestsMade s = [0, 0, 0, 0] \<longrightarrow> rateLimit s = 3 \<longrightarrow> False"
    assume step: "(case exceededRateLimit e s of
      (exceeded, s') \<Rightarrow> if exceeded then poll e s' else Some s') = Some s'"
    show "clock e = (\<lambda>n. 0) \<longrightarrow> requestsMade s = [0, 0, 0, 0] \<longrightarrow> rateLimit s = 3 \<longrightarrow> False"
    proof (intro impI)
      assume a: "clock e = (\<lambda>n. 0)" "requestsMade s = [0, 0, 0, 0]" "rateLimit s = 3"
      let ?s1 = "s\<lparr>requestsMade := recent e (ticks s) (requestsMade s),
                   ticks := ticks s + length (requestsMade s)\<rparr>"
      from a have kept: "recent e (ticks s) (requestsMade s) = [0, 0, 0, 0]" by simp
      with step a have "poll e ?s1 = Some s'"
        by (simp add: exceededRateLimit_eq)
      from IH [OF this] a kept show False by simp
    qed
  qed
  with assms show False by simp
qed

text \<open>
  With a negative ceiling the loop never ends, whatever the clock does: even an empty
  list has more entries than the ceiling.
\<close>

lemma negative_ceiling_never_returns:
  assumes "rateLimit s < 0"
  shows "get_wait e s = None"
proof (rule ccontr)
  assume "get_wait e s \<noteq> None"
  then obtain s' where w: "get_wait e s = Some s'" by blast
  have "rateLimit s < 0 \<longrightarrow> False"
  proof (rule get_wait.raw_induct [where P = "\<lambda>e s s'. rateLimit s < 0 \<longrightarrow> False", OF _ w])
    fix poll :: "env \<Rightarrow> PubMed \<Rightarrow> PubMed option" and e s s'
    assume IH: "\<And>e s s'. poll e s = Some s' \<Longrightarrow> rateLimit s < 0 \<longrightarrow> False"
    assume step: "(case exceededRateLimit e s of
      (exceeded, s') \<Rightarrow> if exceeded then poll e s' else Some s') = Some s'"
    show "rateLimit s < 0 \<longrightarrow> False"
    proof
      assume neg: "rateLimit s < 0"
      let ?s1 = "s\<lparr>requestsMade := recent e (ticks s) (requestsMade s),
                   ticks := ticks s + length (requestsMade s)\<rparr>"
      from neg have "rateLimit s < int (length (recent e (ticks s) (requestsMade s)))"
        by simp
      with step have "poll e ?s1 = Some s'"
        by (simp add: exceededRateLimit_eq)
      from IH [OF this] neg show False by simp
    qed
  qed
  with assms show False by simp
qed

text \<open>The sample world: its clock advances, its client has the ceiling 3.\<close>

lemma demo_clock_advances: "clock_advances demo_env"
  unfolding clock_advances_def
proof
  fix t :: int
  have "\<forall>n\<ge>nat t. t \<le> clock demo_env n"
    by (auto simp: demo_env_def)
  then show "\<exists>N. \<forall>n\<ge>N. t \<le> clock demo_env n" ..
qed

lemma demo_envs_clock_advances: "clock_advances refusing_env" "clock_advances tokenless_env"
  using demo_clock_advances
  by (simp_all add: clock_advances_def refusing_env_def tokenless_env_def)

lemma demo_client_rateLimit: "0 \<le> rateLimit demo_client"
  by (simp add: demo_client_def init_def)

text \<open>
  The loop does wait. Four requests were stamped two seconds after the clock of the
  sample world started: the loop polls three times (twelve readings, 0.4 seconds apart)
  until all four have aged out.
\<close>

lemma get_wait_demo:
  "get_wait demo_env (demo_client\<lparr>requestsMade := [2000000, 2000000, 2000000, 2000000]\<rparr>)
     = Some (demo_client\<lparr>requestsMade := [], ticks := 12\<rparr>)"
  by (simp add: get_wait_again get_wait_immediate demo_client_def init_def demo_env_def)

text \<open>
  C10. A timestamp is appended to \<open>_requestsMade\<close> only after \<open>raise_for_status\<close> has
  passed. For every call of \<open>_get\<close> that returns or raises: the polling loop came to
  an end in a state \<open>s1\<close> whose list of timestamps is what the loop kept of the list
  before the call; when the call raises the \<open>HTTPError\<close> of a bad status, the list after
  the call is the list of \<open>s1\<close> (nothing was appended, the failed request is not counted);
  in every other case exactly one timestamp, the clock reading after the status check,
  was appended to it.
\<close>

theorem get_failure_appends_no_timestamp:
  assumes "get e path p out s = Some (r, s')"
  shows "\<exists>s1. get_wait e s = Some s1 \<and> subseq (requestsMade s1) (requestsMade s)
    \<and> (if (\<exists>c. r = Inl (HTTPError c)) then requestsMade s' = requestsMade s1
        else requestsMade s' = requestsMade s1 @ [clock e (ticks s1)])"
proof -
  from get_Some [OF assms] obtain s1 where w: "get_wait e s = Some s1"
    and r: "let resp = server e (length (sent s))
                 \<lparr>url = BASE_URL @ path, params = (heap s p)(''retmode'' \<mapsto> PStr out)\<rparr>
       in if 400 \<le> status_code resp \<and> status_code resp < 600
          then r = Inl (HTTPError (status_code resp)) \<and> requestsMade s' = requestsMade s1
               \<and> ticks s' = ticks s1
          else requestsMade s' = requestsMade s1 @ [clock e (ticks s1)] \<and> ticks s' = Suc (ticks s1)
               \<and> r = (if out = ''json''
                      then (case loads e (body resp) of
                              None \<Rightarrow> Inl JSONDecodeError | Some j \<Rightarrow> Inr (Json j))
                      else Inr (Text (body resp)))"
    by blast
  from get_wait_Some [OF w] have sub: "subseq (requestsMade s1) (requestsMade s)" by blast
  from r have "if (\<exists>c. r = Inl (HTTPError c)) then requestsMade s' = requestsMade s1
        else requestsMade s' = requestsMade s1 @ [clock e (ticks s1)]"
    by (auto simp: Let_def split: if_splits option.splits)
  with w sub show ?thesis by blast
qed

text \<open>
  A client that made one request 2 seconds before the clock started and one when it
  started asks a service that answers 429: the call raises, the old timestamp is
  dropped by the check, and no timestamp is added.
\<close>

theorem get_failure_appends_no_timestamp_witness:
  "\<exists>s'. get refusing_env ''/entrez/eutils/esearch.fcgi'' 1 ''json''
           (snd (dict_copy 0 (demo_client\<lparr>requestsMade := [- 2000000, 0]\<rparr>)))
         = Some (Inl (HTTPError 429), s')
       \<and> requestsMade s' = [0]"
proof -
  let ?s = "snd (dict_copy 0 (demo_client\<lparr>requestsMade := [- 2000000, 0]\<rparr>))"
  have w: "get_wait refusing_env ?s
             = Some (?s\<lparr>requestsMade := [0], ticks := 2\<rparr>)"
    by (simp add: get_wait_immediate demo_client_def init_def dict_copy_def
        refusing_env_def demo_env_def)
  then obtain s' where
    ev: "get refusing_env ''/entrez/eutils/esearch.fcgi'' 1 ''json'' ?s
           = Some (Inl (HTTPError 429), s')"
    by (simp add: get_def Let_def refusing_env_def)
  from get_failure_appends_no_timestamp [OF ev] w have "requestsMade s' = [0]"
    by auto
  with ev show ?thesis by blast
qed

lemma count_frozen_blocks:
  assumes "clock e = (\<lambda>n. 0)" "requestsMade s = [0, 0, 0, 0]" "rateLimit s = 3"
  shows "getTotalResultsCount e q s = None"
proof -
  let ?p = "next_addr s"
  let ?S = "setitem ?p ''retmax'' (PInt 1)
      (setitem ?p ''term'' (PStr q) (snd (dict_copy (parameters s) s)))"
  have "get_wait e ?S = None"
    using assms by (intro get_wait_frozen) (simp_all add: setitem_def dict_copy_def)
  then have "get e ''/entrez/eutils/esearch.fcgi'' ?p ''json'' ?S = None"
    by (simp add: get_def)
  then show ?thesis
    by (simp add: getTotalResultsCount_def dict_copy_def Let_def and_then_def)
qed

lemma run_calls_append:
  "run_calls e (xs @ ys) s =
     (case run_calls e xs s of None \<Rightarrow> None | Some s1 \<Rightarrow> run_calls e ys s1)"
  by (induction xs arbitrary: s) (auto split: option.splits)

lemma four_counts_frozen:
  "map_option (\<lambda>s. (requestsMade s, rateLimit s, length (sent s), ticks s,
                      fst (exceededRateLimit frozen_env s)))
     (run_calls frozen_env (replicate 4 (Count ''cancer'')) demo_client)
     = Some ([0, 0, 0, 0], 3, 4, 10, True)"
  by (simp add: numeral_eq_Suc getTotalResultsCount_def get_def get_wait_immediate and_then_def
      dict_copy_def setitem_def Let_def demo_client_def init_def frozen_env_def demo_env_def
      demo_server_def BASE_URL_def demo_count_def count_field_def py_int_def
      exceededRateLimit_def)

text \<open>
  C1. The code does not do what the claim says. On a new client (ceiling 3) four
  requests are made in the same instant (the clock stands still): each of the four
  returns, so none was held back, and each check was a single pass (ten clock readings
  in all: 0, 1, 2 and 3 for the checks, one for each timestamp). The fourth request went
  out while three timestamps of the same instant were tracked. After it four requests
  lie within one second, and \<open>_exceededRateLimit\<close> itself says that the limit is
  exceeded. The first request that is held back is the fifth: under this clock it never
  returns.
\<close>

theorem fourth_request_not_held_back:
  "map_option (\<lambda>s. (requestsMade s, rateLimit s, length (sent s), ticks s,
                      fst (exceededRateLimit frozen_env s)))
     (run_calls frozen_env (replicate 4 (Count ''cancer'')) demo_client)
     = Some ([0, 0, 0, 0], 3, 4, 10, True)
   \<and> run_calls frozen_env (replicate 5 (Count ''cancer'')) demo_client = None"
proof -
  from four_counts_frozen obtain s4 where
    run: "run_calls frozen_env (replicate 4 (Count ''cancer'')) demo_client = Some s4"
    and s4: "requestsMade s4 = [0, 0, 0, 0]" "rateLimit s4 = 3"
    by auto
  have "clock frozen_env = (\<lambda>n. 0)" by (simp add: frozen_env_def)
  from count_frozen_blocks [OF this s4]
  have "run_calls frozen_env [Count ''cancer''] s4 = None" by simp
  with run have "run_calls frozen_env (replicate 4 (Count ''cancer'') @ [Count ''cancer''])
      demo_client = None"
    by (simp only: run_calls_append option.case)
  moreover have "replicate 5 (Count ''cancer'') = replicate 4 (Count ''cancer'') @ [Count ''cancer'']"
    by (simp add: numeral_eq_Suc)
  ultimately show ?thesis using four_counts_frozen by simp
qed

section \<open>The methods, one call at a time\<close>

text \<open>
  \<open>iter\<close> and the XPath \<open>.//t\<close> in terms of document order: the elements with the tag,
  picked from all the elements (from all but the root) without changing their order.
\<close>

lemma iter_nodes: "iter t x = filter (\<lambda>y. xtag y = t) (nodes x)"
proof (induction x rule: nodes.induct)
  case (1 tg tx cs)
  then have eq: "map (iter t) cs = map (\<lambda>c. filter (\<lambda>y. xtag y = t) (nodes c)) cs"
    by simp
  show ?case by (simp add: filter_concat comp_def eq)
qed

lemma iter_nodes_fun: "iter t = (\<lambda>x. filter (\<lambda>y. xtag y = t) (nodes x))"
  by (rule ext) (rule iter_nodes)

lemma xpath_descendants_nodes:
  "xpath_descendants t root = filter (\<lambda>y. xtag y = t) (tl (nodes root))"
  by (cases root) (simp add: xpath_descendants_def iter_nodes_fun filter_concat comp_def)

lemma articles_before_books:
  assumes "recs = map PubMedArticle xs @ map PubMedBookArticle ys"
    and "i < length recs" "j < length recs" "\<not> is_article (recs ! i)" "is_article (recs ! j)"
  shows "j < i"
proof -
  have a: "k < length xs \<Longrightarrow> is_article (recs ! k)" for k
    using assms(1) by (simp add: nth_append is_article_def)
  have b: "length xs \<le> k \<Longrightarrow> k < length recs \<Longrightarrow> \<not> is_article (recs ! k)" for k
    using assms(1) by (simp add: nth_append is_article_def)
  from a assms(4) have "length xs \<le> i" by (meson not_le)
  moreover from b assms(3,5) have "j < length xs" by (meson not_le)
  ultimately show ?thesis by simp
qed

text \<open>
  What a fetch of one window sends and returns: the dictionary of the request is a copy
  of the template with the five entries of the call, in a new place of the store.
\<close>

lemma getArticlesEnv_Some:
  assumes "getArticlesEnv e qd a b s = Some (r, s')"
  shows "let d = (heap s (parameters s))(''query_key'' \<mapsto> token (query_key qd),
                    ''WebEnv'' \<mapsto> token (WebEnv qd), ''retmax'' \<mapsto> PInt b,
                    ''retstart'' \<mapsto> PInt a, ''retmode'' \<mapsto> PStr ''xml'');
             req = \<lparr>url = BASE_URL @ ''/entrez/eutils/efetch.fcgi'', params = d\<rparr>;
             resp = server e (length (sent s)) req
         in sent s' = sent s @ [req] \<and> heap s' = (heap s)(next_addr s := d)
            \<and> next_addr s' = Suc (next_addr s) \<and> parameters s' = parameters s
            \<and> rateLimit s' = rateLimit s \<and> query_data s' = query_data s
            \<and> articles s' = articles s
            \<and> r = (if 400 \<le> status_code resp \<and> status_code resp < 600
                   then Inl (HTTPError (status_code resp))
                   else case fromstring e (body resp) of
                          None \<Rightarrow> Inl XMLSyntaxError
                        | Some root \<Rightarrow>
                            Inr (map PubMedArticle (iter ''PubmedArticle'' root) @
                                 map PubMedBookArticle (iter ''PubmedBookArticle'' root)))"
proof -
  let ?p = "next_addr s"
  let ?S = "setitem ?p ''retstart'' (PInt a) (setitem ?p ''retmax'' (PInt b)
      (setitem ?p ''WebEnv'' (token (WebEnv qd)) (setitem ?p ''query_key'' (token (query_key qd))
        (snd (dict_copy (parameters s) s)))))"
  from assms obtain r0 s0 where g: "get e ''/entrez/eutils/efetch.fcgi'' ?p ''xml'' ?S = Some (r0, s0)"
    by (auto simp: getArticlesEnv_def dict_copy_def Let_def and_then_def split: option.splits)
  from assms g have post: "(case r0 of Inl err \<Rightarrow> r = Inl err
       | Inr (Json j) \<Rightarrow> r = Inl TypeError
       | Inr (Text t) \<Rightarrow> r = (case fromstring e t of None \<Rightarrow> Inl XMLSyntaxError
           | Some root \<Rightarrow> Inr (map PubMedArticle (iter ''PubmedArticle'' root) @
                                 map PubMedBookArticle (iter ''PubmedBookArticle'' root))))"
    and s': "s' = s0"
    by (auto simp: getArticlesEnv_def dict_copy_def Let_def and_then_def
        split: option.splits sum.splits payload.splits)
  from get_Some [OF g] post show ?thesis
    unfolding s'
    by (auto simp: Let_def setitem_def dict_copy_def split: if_splits)
qed

lemma getArticlesEnv_returns:
  assumes "clock_advances e" "0 \<le> rateLimit s"
  shows "\<exists>r s'. getArticlesEnv e qd a b s = Some (r, s')"
proof -
  let ?p = "next_addr s"
  let ?S = "setitem ?p ''retstart'' (PInt a) (setitem ?p ''retmax'' (PInt b)
      (setitem ?p ''WebEnv'' (token (WebEnv qd)) (setitem ?p ''query_key'' (token (query_key qd))
        (snd (dict_copy (parameters s) s)))))"
  have "0 \<le> rateLimit ?S" using assms(2) by (simp add: setitem_def dict_copy_def)
  from get_returns [OF assms(1) this]
  obtain r0 s0 where "get e ''/entrez/eutils/efetch.fcgi'' ?p ''xml'' ?S = Some (r0, s0)"
    by blast
  then show ?thesis
    by (auto simp: getArticlesEnv_def dict_copy_def Let_def and_then_def
        split: option.splits sum.splits payload.splits)
qed

text \<open>The same for the search that opens a session.\<close>

lemma getPubMedData_Some:
  assumes "getPubMedData e q m s = Some (r, s')"
  shows "let d = (heap s (parameters s))(''term'' \<mapsto> PStr q, ''usehistory'' \<mapsto> PStr ''y'',
                    ''retmax'' \<mapsto> PInt m, ''retmode'' \<mapsto> PStr ''xml'');
             req = \<lparr>url = BASE_URL @ ''/entrez/eutils/esearch.fcgi'', params = d\<rparr>;
             resp = server e (length (sent s)) req
         in sent s' = sent s @ [req] \<and> heap s' = (heap s)(next_addr s := d)
            \<and> next_addr s' = Suc (next_addr s) \<and> parameters s' = parameters s
            \<and> rateLimit s' = rateLimit s \<and> query_data s' = query_data s
            \<and> articles s' = articles s
            \<and> r = (if 400 \<le> status_code resp \<and> status_code resp < 600
                   then Inl (HTTPError (status_code resp))
                   else case fromstring e (body resp) of
                          None \<Rightarrow> Inl XMLSyntaxError
                        | Some root \<Rightarrow>
                            (case xpath_descendants ''QueryKey'' root of
                               [] \<Rightarrow> Inl IndexError
                             | k # _ \<Rightarrow>
                                 (case xpath_descendants ''WebEnv'' root of
                                    [] \<Rightarrow> Inl IndexError
                                  | w # _ \<Rightarrow> Inr \<lparr>query_key = xtext k, WebEnv = xtext w\<rparr>)))"
proof -
  let ?p = "next_addr s"
  let ?S = "setitem ?p ''retmax'' (PInt m) (setitem ?p ''usehistory'' (PStr ''y'')
      (setitem ?p ''term'' (PStr q) (snd (dict_copy (parameters s) s))))"
  from assms obtain r0 s0 where g: "get e ''/entrez/eutils/esearch.fcgi'' ?p ''xml'' ?S = Some (r0, s0)"
    by (auto simp: getPubMedData_def dict_copy_def Let_def and_then_def split: option.splits)
  from assms g have post: "(case r0 of Inl err \<Rightarrow> r = Inl err
       | Inr (Json j) \<Rightarrow> r = Inl AttributeError
       | Inr (Text t) \<Rightarrow> r = (case fromstring e t of None \<Rightarrow> Inl XMLSyntaxError
           | Some root \<Rightarrow>
               (case xpath_descendants ''QueryKey'' root of
                  [] \<Rightarrow> Inl IndexError
                | k # _ \<Rightarrow>
                    (case xpath_descendants ''WebEnv'' root of
                       [] \<Rightarrow> Inl IndexError
                     | w # _ \<Rightarrow> Inr \<lparr>query_key = xtext k, WebEnv = xtext w\<rparr>))))"
    and s': "s' = s0"
    by (auto simp: getPubMedData_def dict_copy_def Let_def and_then_def
        split: option.splits sum.splits payload.splits list.splits)
  from get_Some [OF g] post show ?thesis
    unfolding s'
    by (auto simp: Let_def setitem_def dict_copy_def split: if_splits)
qed

lemma getPubMedData_returns:
  assumes "clock_advances e" "0 \<le> rateLimit s"
  shows "\<exists>r s'. getPubMedData e q m s = Some (r, s')"
proof -
  let ?p = "next_addr s"
  let ?S = "setitem ?p ''retmax'' (PInt m) (setitem ?p ''usehistory'' (PStr ''y'')
      (setitem ?p ''term'' (PStr q) (snd (dict_copy (parameters s) s))))"
  have "0 \<le> rateLimit ?S" using assms(2) by (simp add: setitem_def dict_copy_def)
  from get_returns [OF assms(1) this]
  obtain r0 s0 where "get e ''/entrez/eutils/esearch.fcgi'' ?p ''xml'' ?S = Some (r0, s0)"
    by blast
  then show ?thesis
    by (auto simp: getPubMedData_def dict_copy_def Let_def and_then_def
        split: option.splits sum.splits payload.splits list.splits)
qed

text \<open>And for the count of the matches.\<close>

lemma getTotalResultsCount_Some:
  assumes "getTotalResultsCount e q s = Some (r, s')"
  shows "let d = (heap s (parameters s))(''term'' \<mapsto> PStr q, ''retmax'' \<mapsto> PInt 1,
                    ''retmode'' \<mapsto> PStr ''json'');
             req = \<lparr>url = BASE_URL @ ''/entrez/eutils/esearch.fcgi'', params = d\<rparr>;
             resp = server e (length (sent s)) req
         in sent s' = sent s @ [req] \<and> heap s' = (heap s)(next_addr s := d)
            \<and> next_addr s' = Suc (next_addr s) \<and> parameters s' = parameters s
            \<and> rateLimit s' = rateLimit s \<and> query_data s' = query_data s
            \<and> articles s' = articles s
            \<and> r = (if 400 \<le> status_code resp \<and> status_code resp < 600
                   then Inl (HTTPError (status_code resp))
                   else case loads e (body resp) of
                          None \<Rightarrow> Inl JSONDecodeError
                        | Some j \<Rightarrow>
                            (case count_field j of
                               Inl err \<Rightarrow> Inl err
                             | Inr c \<Rightarrow> py_int e c))"
proof -
  let ?p = "next_addr s"
  let ?S = "setitem ?p ''retmax'' (PInt 1)
      (setitem ?p ''term'' (PStr q) (snd (dict_copy (parameters s) s)))"
  from assms obtain r0 s0 where g: "get e ''/entrez/eutils/esearch.fcgi'' ?p ''json'' ?S = Some (r0, s0)"
    by (auto simp: getTotalResultsCount_def dict_copy_def Let_def and_then_def split: option.splits)
  from assms g have post: "(case r0 of Inl err \<Rightarrow> r = Inl err
       | Inr (Text t) \<Rightarrow> r = Inl AttributeError
       | Inr (Json j) \<Rightarrow> r = (case count_field j of
                               Inl err \<Rightarrow> Inl err
                             | Inr c \<Rightarrow> py_int e c))"
    and s': "s' = s0"
    by (auto simp: getTotalResultsCount_def dict_copy_def Let_def and_then_def
        split: option.splits sum.splits payload.splits)
  from get_Some [OF g] post show ?thesis
    unfolding s'
    by (auto simp: Let_def setitem_def dict_copy_def split: if_splits option.splits)
qed

lemma getTotalResultsCount_returns:
  assumes "clock_advances e" "0 \<le> rateLimit s"
  shows "\<exists>r s'. getTotalResultsCount e q s = Some (r, s')"
proof -
  let ?p = "next_addr s"
  let ?S = "setitem ?p ''retmax'' (PInt 1)
      (setitem ?p ''term'' (PStr q) (snd (dict_copy (parameters s) s)))"
  have "0 \<le> rateLimit ?S" using assms(2) by (simp add: setitem_def dict_copy_def)
  from get_returns [OF assms(1) this]
  obtain r0 s0 where "get e ''/entrez/eutils/esearch.fcgi'' ?p ''json'' ?S = Some (r0, s0)"
    by blast
  then show ?thesis
    by (auto simp: getTotalResultsCount_def dict_copy_def Let_def and_then_def
        split: option.splits sum.splits payload.splits)
qed

text \<open>The sample service answers every search and every fetch.\<close>

lemma demo_search_ok:
  assumes "getPubMedData demo_env q m s = Some (r, s')"
  shows "r = Inr \<lparr>query_key = Some ''1'', WebEnv = Some ''MCID_demo''\<rparr>"
  using getPubMedData_Some [OF assms]
  by (simp add: Let_def demo_env_def demo_server_def demo_search_def xpath_descendants_def)

lemma demo_fetch_ok:
  assumes "getArticlesEnv demo_env qd a b s = Some (r, s')"
  shows "r = Inr [PubMedArticle (demo_article ''101''), PubMedArticle (demo_article ''303''),
                  PubMedBookArticle (demo_book ''202'')]"
  using getArticlesEnv_Some [OF assms]
  by (simp add: Let_def demo_env_def demo_server_def demo_fetch_def demo_article_def
      demo_book_def)

text \<open>
  C7. Session establishment. When time goes on (the polling loop ends),
  \<open>_getPubMedData\<close> returns or raises after exactly one request: a search
  (\<open>esearch\<close>) for the query with \<open>usehistory = "y"\<close>, \<open>retmax = max_results\<close> and
  \<open>retmode = "xml"\<close>. When the status is good and the body parses, the result is the
  \<open>.text\<close> of the first \<open>QueryKey\<close> and of the first \<open>WebEnv\<close> element below the root
  (\<open>tl (nodes root)\<close>), in document order; when either element is absent the call
  fails with the \<open>IndexError\<close> of \<open>[0]\<close> on an empty list, which is what the
  specification calls a ProtocolError.
\<close>

theorem getPubMedData_establishes_session:
  assumes "clock_advances e" "0 \<le> rateLimit s"
  shows "\<exists>r s' req. getPubMedData e q m s = Some (r, s')
    \<and> sent s' = sent s @ [req]
    \<and> url req = BASE_URL @ ''/entrez/eutils/esearch.fcgi''
    \<and> params req ''term'' = Some (PStr q)
    \<and> params req ''usehistory'' = Some (PStr ''y'')
    \<and> params req ''retmax'' = Some (PInt m)
    \<and> params req ''retmode'' = Some (PStr ''xml'')
    \<and> (\<forall>root.
          \<not> (400 \<le> status_code (server e (length (sent s)) req)
               \<and> status_code (server e (length (sent s)) req) < 600)
          \<and> fromstring e (body (server e (length (sent s)) req)) = Some root \<longrightarrow>
          r = (if filter (\<lambda>x. xtag x = ''QueryKey'') (tl (nodes root)) = []
                  \<or> filter (\<lambda>x. xtag x = ''WebEnv'') (tl (nodes root)) = []
               then Inl IndexError
               else Inr \<lparr>query_key =
                           xtext (hd (filter (\<lambda>x. xtag x = ''QueryKey'') (tl (nodes root)))),
                         WebEnv =
                           xtext (hd (filter (\<lambda>x. xtag x = ''WebEnv'') (tl (nodes root))))\<rparr>))"
proof -
  from getPubMedData_returns [OF assms]
  obtain r s' where g: "getPubMedData e q m s = Some (r, s')" by blast
  let ?req = "\<lparr>url = BASE_URL @ ''/entrez/eutils/esearch.fcgi'',
      params = (heap s (parameters s))(''term'' \<mapsto> PStr q, ''usehistory'' \<mapsto> PStr ''y'',
                    ''retmax'' \<mapsto> PInt m, ''retmode'' \<mapsto> PStr ''xml'')\<rparr>"
  from getPubMedData_Some [OF g] have snt: "sent s' = sent s @ [?req]"
    and r: "r = (if 400 \<le> status_code (server e (length (sent s)) ?req)
                    \<and> status_code (server e (length (sent s)) ?req) < 600
                 then Inl (HTTPError (status_code (server e (length (sent s)) ?req)))
                 else case fromstring e (body (server e (length (sent s)) ?req)) of
                        None \<Rightarrow> Inl XMLSyntaxError
                      | Some root \<Rightarrow>
                          (case xpath_descendants ''QueryKey'' root of
                             [] \<Rightarrow> Inl IndexError
                           | k # _ \<Rightarrow>
                               (case xpath_descendants ''WebEnv'' root of
                                  [] \<Rightarrow> Inl IndexError
                                | w # _ \<Rightarrow> Inr \<lparr>query_key = xtext k, WebEnv = xtext w\<rparr>)))"
    by (simp_all add: Let_def)
  have "\<forall>root.
          \<not> (400 \<le> status_code (server e (length (sent s)) ?req)
               \<and> status_code (server e (length (sent s)) ?req) < 600)
          \<and> fromstring e (body (server e (length (sent s)) ?req)) = Some root \<longrightarrow>
          r = (if filter (\<lambda>x. xtag x = ''QueryKey'') (tl (nodes root)) = []
                  \<or> filter (\<lambda>x. xtag x = ''WebEnv'') (tl (nodes root)) = []
               then Inl IndexError
               else Inr \<lparr>query_key =
                           xtext (hd (filter (\<lambda>x. xtag x = ''QueryKey'') (tl (nodes root)))),
                         WebEnv =
                           xtext (hd (filter (\<lambda>x. xtag x = ''WebEnv'') (tl (nodes root))))\<rparr>)"
    using r by (auto simp: xpath_descendants_nodes split: list.splits)
  with g snt show ?thesis
    by (intro exI [of _ r] exI [of _ s'] exI [of _ ?req]) simp
qed

text \<open>
  The sample service gives query key \<open>1\<close> and environment \<open>MCID_demo\<close>; the one whose
  answer has no \<open>WebEnv\<close> makes the call fail.
\<close>

theorem getPubMedData_establishes_session_witness:
  "(\<exists>s'. getPubMedData demo_env ''cancer'' 5 demo_client
            = Some (Inr \<lparr>query_key = Some ''1'', WebEnv = Some ''MCID_demo''\<rparr>, s')
         \<and> map window_of (sent s') = [(None, Some (PInt 5))])
   \<and> (\<exists>s'. getPubMedData tokenless_env ''cancer'' 5 demo_client = Some (Inl IndexError, s'))"
proof -
  have s0: "sent demo_client = []" by (simp add: demo_client_def init_def)
  from getPubMedData_establishes_session [OF demo_clock_advances demo_client_rateLimit,
      of "''cancer''" 5]
  obtain r s' req where g: "getPubMedData demo_env ''cancer'' 5 demo_client = Some (r, s')"
    and snt: "sent s' = [req]"
    and req: "url req = BASE_URL @ ''/entrez/eutils/esearch.fcgi''"
      "params req ''retmode'' = Some (PStr ''xml'')" "params req ''retmax'' = Some (PInt 5)"
    and r: "\<forall>root.
          \<not> (400 \<le> status_code (server demo_env 0 req)
               \<and> status_code (server demo_env 0 req) < 600)
          \<and> fromstring demo_env (body (server demo_env 0 req)) = Some root \<longrightarrow>
          r = (if filter (\<lambda>x. xtag x = ''QueryKey'') (tl (nodes root)) = []
                  \<or> filter (\<lambda>x. xtag x = ''WebEnv'') (tl (nodes root)) = []
               then Inl IndexError
               else Inr \<lparr>query_key =
                           xtext (hd (filter (\<lambda>x. xtag x = ''QueryKey'') (tl (nodes root)))),
                         WebEnv =
                           xtext (hd (filter (\<lambda>x. xtag x = ''WebEnv'') (tl (nodes root))))\<rparr>)"
    unfolding s0 by auto
  have resp: "demo_server 0 req = \<lparr>status_code = 200, body = ''<eSearchResult/>''\<rparr>"
    using req by (simp add: demo_server_def)
  have "r = Inr \<lparr>query_key = Some ''1'', WebEnv = Some ''MCID_demo''\<rparr>"
    using r [rule_format, of demo_search]
    by (simp add: resp demo_env_def demo_search_def)
  moreover have "params req ''retstart'' = None"
    using getPubMedData_Some [OF g] snt
    by (simp add: Let_def s0 demo_client_def init_def template_def)
  ultimately have first: "\<exists>s'. getPubMedData demo_env ''cancer'' 5 demo_client
            = Some (Inr \<lparr>query_key = Some ''1'', WebEnv = Some ''MCID_demo''\<rparr>, s')
         \<and> map window_of (sent s') = [(None, Some (PInt 5))]"
    using g snt req by (auto simp: window_of_def)
  from getPubMedData_establishes_session [OF demo_envs_clock_advances(2) demo_client_rateLimit,
      of "''cancer''" 5]
  obtain r2 s2 req2 where g2: "getPubMedData tokenless_env ''cancer'' 5 demo_client = Some (r2, s2)"
    and req2: "url req2 = BASE_URL @ ''/entrez/eutils/esearch.fcgi''"
      "params req2 ''retmode'' = Some (PStr ''xml'')"
    and r2: "\<forall>root.
          \<not> (400 \<le> status_code (server tokenless_env 0 req2)
               \<and> status_code (server tokenless_env 0 req2) < 600)
          \<and> fromstring tokenless_env (body (server tokenless_env 0 req2)) = Some root \<longrightarrow>
          r2 = (if filter (\<lambda>x. xtag x = ''QueryKey'') (tl (nodes root)) = []
                  \<or> filter (\<lambda>x. xtag x = ''WebEnv'') (tl (nodes root)) = []
               then Inl IndexError
               else Inr \<lparr>query_key =
                           xtext (hd (filter (\<lambda>x. xtag x = ''QueryKey'') (tl (nodes root)))),
                         WebEnv =
                           xtext (hd (filter (\<lambda>x. xtag x = ''WebEnv'') (tl (nodes root))))\<rparr>)"
    unfolding s0 by auto
  have resp2: "demo_server 0 req2 = \<lparr>status_code = 200, body = ''<eSearchResult/>''\<rparr>"
    using req2 by (simp add: demo_server_def)
  have "r2 = Inl IndexError"
    using r2 [rule_format, of "Element ''eSearchResult'' None
        [Element ''QueryKey'' (Some ''1'') [], Element ''ERROR'' (Some ''busy'') []]"]
    by (simp add: resp2 tokenless_env_def demo_env_def)
  with g2 first show ?thesis by blast
qed

text \<open>
  C8. When time goes on, \<open>getTotalResultsCount\<close> returns or raises after exactly one
  request, a search (\<open>esearch\<close>, never a fetch) for the query with \<open>retmax = 1\<close> in JSON.
  When the status is good and the answer is an object whose \<open>esearchresult\<close> has a
  \<open>count\<close>, the result is \<open>int\<close> of that field; the list of ids in the answer is not
  read.
\<close>

theorem getTotalResultsCount_reads_count:
  assumes "clock_advances e" "0 \<le> rateLimit s"
  shows "\<exists>r s' req. getTotalResultsCount e q s = Some (r, s')
    \<and> sent s' = sent s @ [req]
    \<and> url req = BASE_URL @ ''/entrez/eutils/esearch.fcgi''
    \<and> params req ''term'' = Some (PStr q)
    \<and> params req ''retmax'' = Some (PInt 1)
    \<and> params req ''retmode'' = Some (PStr ''json'')
    \<and> (\<forall>members res c.
          \<not> (400 \<le> status_code (server e (length (sent s)) req)
               \<and> status_code (server e (length (sent s)) req) < 600)
          \<and> loads e (body (server e (length (sent s)) req)) = Some (JObj members)
          \<and> map_of members ''esearchresult'' = Some (JObj res)
          \<and> map_of res ''count'' = Some c \<longrightarrow>
          r = py_int e c)"
proof -
  from getTotalResultsCount_returns [OF assms]
  obtain r s' where g: "getTotalResultsCount e q s = Some (r, s')" by blast
  let ?req = "\<lparr>url = BASE_URL @ ''/entrez/eutils/esearch.fcgi'',
      params = (heap s (parameters s))(''term'' \<mapsto> PStr q, ''retmax'' \<mapsto> PInt 1,
                    ''retmode'' \<mapsto> PStr ''json'')\<rparr>"
  from getTotalResultsCount_Some [OF g] have snt: "sent s' = sent s @ [?req]"
    and r: "r = (if 400 \<le> status_code (server e (length (sent s)) ?req)
                    \<and> status_code (server e (length (sent s)) ?req) < 600
                 then Inl (HTTPError (status_code (server e (length (sent s)) ?req)))
                 else case loads e (body (server e (length (sent s)) ?req)) of
                        None \<Rightarrow> Inl JSONDecodeError
                      | Some j \<Rightarrow>
                          (case count_field j of
                             Inl err \<Rightarrow> Inl err
                           | Inr c \<Rightarrow> py_int e c))"
    by (simp_all add: Let_def)
  have "\<forall>members res c.
          \<not> (400 \<le> status_code (server e (length (sent s)) ?req)
               \<and> status_code (server e (length (sent s)) ?req) < 600)
          \<and> loads e (body (server e (length (sent s)) ?req)) = Some (JObj members)
          \<and> map_of members ''esearchresult'' = Some (JObj res)
          \<and> map_of res ''count'' = Some c \<longrightarrow>
          r = py_int e c"
    using r by (auto simp: count_field_def)
  with g snt show ?thesis
    by (intro exI [of _ r] exI [of _ s'] exI [of _ ?req]) simp
qed

text \<open>
  The sample service reports 4231 matches and lists one id: the call returns 4231.
\<close>

theorem getTotalResultsCount_reads_count_witness:
  "\<exists>s'. getTotalResultsCount demo_env ''cancer'' demo_client = Some (Inr 4231, s')
      \<and> map url (sent s') = [BASE_URL @ ''/entrez/eutils/esearch.fcgi'']
      \<and> map window_of (sent s') = [(None, Some (PInt 1))]"
proof -
  have s0: "sent demo_client = []" by (simp add: demo_client_def init_def)
  from getTotalResultsCount_reads_count [OF demo_clock_advances demo_client_rateLimit,
      of "''cancer''"]
  obtain r s' req where g: "getTotalResultsCount demo_env ''cancer'' demo_client = Some (r, s')"
    and snt: "sent s' = [req]"
    and req: "url req = BASE_URL @ ''/entrez/eutils/esearch.fcgi''"
      "params req ''retmode'' = Some (PStr ''json'')" "params req ''retmax'' = Some (PInt 1)"
    and r: "\<forall>members res c.
          \<not> (400 \<le> status_code (server demo_env 0 req)
               \<and> status_code (server demo_env 0 req) < 600)
          \<and> loads demo_env (body (server demo_env 0 req)) = Some (JObj members)
          \<and> map_of members ''esearchresult'' = Some (JObj res)
          \<and> map_of res ''count'' = Some c \<longrightarrow>
          r = py_int demo_env c"
    unfolding s0 by auto
  have resp: "demo_server 0 req = \<lparr>status_code = 200, body = ''{count}''\<rparr>"
    using req by (simp add: demo_server_def)
  have "r = py_int demo_env (JStr ''4231'')"
    using r [rule_format, of "[(''header'', JObj [(''type'', JStr ''esearch'')]),
           (''esearchresult'',
              JObj [(''count'', JStr ''4231''), (''retmax'', JStr ''1''),
                    (''idlist'', JArr [JStr ''38000001''])])]"
        "[(''count'', JStr ''4231''), (''retmax'', JStr ''1''),
                    (''idlist'', JArr [JStr ''38000001''])]" "JStr ''4231''"]
    by (simp add: resp demo_env_def demo_count_def)
  then have "r = Inr 4231" by (simp add: py_int_def demo_env_def)
  moreover have "params req ''retstart'' = None"
    using getTotalResultsCount_Some [OF g] snt
    by (simp add: Let_def s0 demo_client_def init_def template_def)
  ultimately show ?thesis
    using g snt req by (auto simp: window_of_def)
qed

text \<open>
  C6. The records of one window. When a fetch yields records, the body of the answer
  parsed to a root, and the records are: the \<open>PubMedArticle\<close> of every \<open>PubmedArticle\<close>
  element, in document order, followed by the \<open>PubMedBookArticle\<close> of every
  \<open>PubmedBookArticle\<close> element, in document order. So every article record comes
  before every book record, wherever the books stand in the document: the sequence is
  not the document order of the two kinds taken together.
\<close>

theorem getArticlesEnv_articles_then_books:
  assumes "getArticlesEnv e qd start end' s = Some (Inr recs, s')"
  shows "\<exists>root. fromstring e (body (server e (length (sent s)) (last (sent s')))) = Some root
    \<and> recs = map PubMedArticle (filter (\<lambda>x. xtag x = ''PubmedArticle'') (nodes root))
             @ map PubMedBookArticle (filter (\<lambda>x. xtag x = ''PubmedBookArticle'') (nodes root))
    \<and> filter (\<lambda>x. xtag x = ''PubmedArticle'') (nodes root) = iter ''PubmedArticle'' root
    \<and> filter (\<lambda>x. xtag x = ''PubmedBookArticle'') (nodes root) = iter ''PubmedBookArticle'' root
    \<and> (\<forall>i j. i < length recs \<and> j < length recs
            \<and> \<not> is_article (recs ! i) \<and> is_article (recs ! j) \<longrightarrow> j < i)"
proof -
  let ?req = "\<lparr>url = BASE_URL @ ''/entrez/eutils/efetch.fcgi'',
      params = (heap s (parameters s))(''query_key'' \<mapsto> token (query_key qd),
                    ''WebEnv'' \<mapsto> token (WebEnv qd), ''retmax'' \<mapsto> PInt end',
                    ''retstart'' \<mapsto> PInt start, ''retmode'' \<mapsto> PStr ''xml'')\<rparr>"
  from getArticlesEnv_Some [OF assms] have snt: "sent s' = sent s @ [?req]"
    and r: "Inr recs = (if 400 \<le> status_code (server e (length (sent s)) ?req)
                    \<and> status_code (server e (length (sent s)) ?req) < 600
                 then Inl (HTTPError (status_code (server e (length (sent s)) ?req)))
                 else case fromstring e (body (server e (length (sent s)) ?req)) of
                          None \<Rightarrow> Inl XMLSyntaxError
                        | Some root \<Rightarrow>
                            Inr (map PubMedArticle (iter ''PubmedArticle'' root) @
                                 map PubMedBookArticle (iter ''PubmedBookArticle'' root)))"
    by (simp_all add: Let_def)
  from snt have "last (sent s') = ?req" by simp
  with r obtain root where
    root: "fromstring e (body (server e (length (sent s)) (last (sent s')))) = Some root"
    and recs: "recs = map PubMedArticle (iter ''PubmedArticle'' root)
                    @ map PubMedBookArticle (iter ''PubmedBookArticle'' root)"
    by (auto split: if_splits option.splits)
  have order: "\<forall>i j. i < length recs \<and> j < length recs
            \<and> \<not> is_article (recs ! i) \<and> is_article (recs ! j) \<longrightarrow> j < i"
    using articles_before_books [OF recs] by blast
  from root recs order show ?thesis
    by (intro exI [of _ root]) (simp add: iter_nodes)
qed

text \<open>
  The sample document holds article 101, book 202 and article 303 in this order; the
  fetch yields the two articles and then the book.
\<close>

theorem getArticlesEnv_articles_then_books_witness:
  "\<exists>s'. getArticlesEnv demo_env \<lparr>query_key = Some ''1'', WebEnv = Some ''MCID_demo''\<rparr> 0 5
           demo_client
         = Some (Inr [PubMedArticle (demo_article ''101''), PubMedArticle (demo_article ''303''),
                      PubMedBookArticle (demo_book ''202'')], s')
      \<and> filter (\<lambda>x. xtag x = ''PubmedArticle'' \<or> xtag x = ''PubmedBookArticle'')
           (nodes demo_fetch)
         = [demo_article ''101'', demo_book ''202'', demo_article ''303'']"
proof -
  let ?qd = "\<lparr>query_key = Some ''1'', WebEnv = Some ''MCID_demo''\<rparr>"
  have s0: "sent demo_client = []" by (simp add: demo_client_def init_def)
  from getArticlesEnv_returns [OF demo_clock_advances demo_client_rateLimit, of ?qd 0 5]
  obtain r s' where g: "getArticlesEnv demo_env ?qd 0 5 demo_client = Some (r, s')" by blast
  from demo_fetch_ok [OF g] g
  have ok: "getArticlesEnv demo_env ?qd 0 5 demo_client
      = Some (Inr [PubMedArticle (demo_article ''101''), PubMedArticle (demo_article ''303''),
                   PubMedBookArticle (demo_book ''202'')], s')"
    by simp
  from getArticlesEnv_articles_then_books [OF ok]
  have "filter (\<lambda>x. xtag x = ''PubmedArticle'' \<or> xtag x = ''PubmedBookArticle'')
           (nodes demo_fetch)
         = [demo_article ''101'', demo_book ''202'', demo_article ''303'']"
    by (simp add: demo_fetch_def demo_article_def demo_book_def)
  with ok show ?thesis by blast
qed

text \<open>
  The request of a fetch, for every session and every window: the tokens as they are,
  \<open>retstart = start\<close>, XML, and \<open>retmax = end\<close> (not \<open>end - start\<close>).
\<close>

lemma getArticlesEnv_request:
  assumes "getArticlesEnv e qd start end' s = Some (r, s')"
  shows "\<exists>req. sent s' = sent s @ [req]
    \<and> url req = BASE_URL @ ''/entrez/eutils/efetch.fcgi''
    \<and> params req ''query_key'' = Some (token (query_key qd))
    \<and> params req ''WebEnv'' = Some (token (WebEnv qd))
    \<and> params req ''retstart'' = Some (PInt start)
    \<and> params req ''retmax'' = Some (PInt end')
    \<and> params req ''retmode'' = Some (PStr ''xml'')"
  using getArticlesEnv_Some [OF assms] by (simp add: Let_def)

text \<open>
  C3. The code does not do what the claim says for \<open>retmax\<close>. The second window of
  \<open>query(q, 15000)\<close> is \<open>(10000, 15000)\<close>: its one request carries the tokens of the
  session as they are, \<open>retstart = 10000\<close> and XML as the claim says, but
  \<open>retmax = 15000\<close>, the end of the window, where the claim has \<open>end - start = 5000\<close>.
\<close>

theorem fetch_sends_end_as_retmax:
  "map_option
     (\<lambda>(r, s'). map (\<lambda>q. (url q, params q ''query_key'', params q ''WebEnv'',
                            params q ''retstart'', params q ''retmax'', params q ''retmode''))
                   (sent s'))
     (getArticlesEnv demo_env \<lparr>query_key = Some ''1'', WebEnv = Some ''MCID_demo''\<rparr>
        10000 15000 demo_client)
   = Some [(BASE_URL @ ''/entrez/eutils/efetch.fcgi'', Some (PStr ''1''),
            Some (PStr ''MCID_demo''), Some (PInt 10000), Some (PInt 15000),
            Some (PStr ''xml''))]"
proof -
  let ?qd = "\<lparr>query_key = Some ''1'', WebEnv = Some ''MCID_demo''\<rparr>"
  have s0: "sent demo_client = []" by (simp add: demo_client_def init_def)
  from getArticlesEnv_returns [OF demo_clock_advances demo_client_rateLimit, of ?qd 10000 15000]
  obtain r s' where g: "getArticlesEnv demo_env ?qd 10000 15000 demo_client = Some (r, s')"
    by blast
  from getArticlesEnv_request [OF g] show ?thesis
    unfolding g s0 by (auto simp: token_def)
qed

section \<open>What a call leaves alone\<close>

lemma untouched_refl: "untouched s s"
  by (simp add: untouched_def)

lemma untouched_trans: "untouched s s1 \<Longrightarrow> untouched s1 s2 \<Longrightarrow> untouched s s2"
  by (auto simp: untouched_def)

lemma getArticlesEnv_untouched:
  "getArticlesEnv e qd a b s = Some (r, s') \<Longrightarrow> untouched s s'"
  using getArticlesEnv_Some [of e qd a b s r s'] by (simp add: untouched_def Let_def)

lemma getPubMedData_untouched:
  "getPubMedData e q m s = Some (r, s') \<Longrightarrow> untouched s s'"
  using getPubMedData_Some [of e q m s r s'] by (simp add: untouched_def Let_def)

lemma getTotalResultsCount_untouched:
  "getTotalResultsCount e q s = Some (r, s') \<Longrightarrow> untouched s s'"
  using getTotalResultsCount_Some [of e q s r s'] by (simp add: untouched_def Let_def)

lemma chain_windows_untouched:
  "chain_windows e qd ws s = Some (r, s') \<Longrightarrow> untouched s s'"
proof (induction ws arbitrary: s r s')
  case Nil
  then show ?case by (simp add: untouched_refl)
next
  case (Cons w ws)
  obtain a b where w: "w = (a, b)" by (cases w)
  from Cons.prems obtain r1 s1 where g: "getArticlesEnv e qd a b s = Some (r1, s1)"
    unfolding w by (auto simp: and_then_def split: option.splits)
  note u1 = getArticlesEnv_untouched [OF g]
  show ?case
  proof (cases r1)
    case (Inl err)
    with Cons.prems g have "s' = s1" unfolding w by (simp add: and_then_def)
    with u1 show ?thesis by simp
  next
    case (Inr rs)
    with Cons.prems g obtain r2 where "chain_windows e qd ws s1 = Some (r2, s')"
      unfolding w by (auto simp: and_then_def split: option.splits sum.splits)
    from Cons.IH [OF this] u1 show ?thesis by (rule untouched_trans [rotated])
  qed
qed

lemma chain_windows_returns:
  assumes "clock_advances e"
  shows "0 \<le> rateLimit s \<Longrightarrow> \<exists>r s'. chain_windows e qd ws s = Some (r, s')"
proof (induction ws arbitrary: s)
  case Nil
  then show ?case by simp
next
  case (Cons w ws)
  obtain a b where w: "w = (a, b)" by (cases w)
  from getArticlesEnv_returns [OF assms Cons.prems]
  obtain r1 s1 where g: "getArticlesEnv e qd a b s = Some (r1, s1)" by blast
  from getArticlesEnv_untouched [OF g] Cons.prems have "0 \<le> rateLimit s1"
    by (simp add: untouched_def)
  from Cons.IH [OF this] obtain r2 s2 where "chain_windows e qd ws s1 = Some (r2, s2)" by blast
  with g show ?case unfolding w
    by (cases r1; cases r2) (simp_all add: and_then_def)
qed

text \<open>
  The requests of a chain of windows that ran to its end: one per window, in the order
  of the list, each with \<open>retstart\<close> the start of its window and \<open>retmax\<close> its end.
\<close>

lemma chain_windows_sent:
  "chain_windows e qd ws s = Some (Inr rs, s') \<Longrightarrow>
     length (sent s') = length (sent s) + length ws
     \<and> take (length (sent s)) (sent s') = sent s
     \<and> map window_of (drop (length (sent s)) (sent s')) = map fetch_window ws
     \<and> (\<forall>r \<in> set (drop (length (sent s)) (sent s')).
           url r = BASE_URL @ ''/entrez/eutils/efetch.fcgi'')"
proof (induction ws arbitrary: s rs s')
  case Nil
  then show ?case by simp
next
  case (Cons w ws)
  obtain a b where w: "w = (a, b)" by (cases w)
  from Cons.prems obtain r1 s1 where g: "getArticlesEnv e qd a b s = Some (r1, s1)"
    unfolding w by (auto simp: and_then_def split: option.splits)
  from Cons.prems g obtain rs1 rs2 where r1: "r1 = Inr rs1"
    and c: "chain_windows e qd ws s1 = Some (Inr rs2, s')"
    unfolding w by (auto simp: and_then_def split: option.splits sum.splits)
  from getArticlesEnv_Some [OF g] obtain req where s1: "sent s1 = sent s @ [req]"
    and win: "window_of req = fetch_window (a, b)"
    and u: "url req = BASE_URL @ ''/entrez/eutils/efetch.fcgi''"
    by (auto simp: Let_def window_of_def fetch_window_def)
  from Cons.IH [OF c] have len: "length (sent s') = length (sent s1) + length ws"
    and tk: "take (length (sent s1)) (sent s') = sent s1"
    and dr: "map window_of (drop (length (sent s1)) (sent s')) = map fetch_window ws"
    and ur: "\<forall>r \<in> set (drop (length (sent s1)) (sent s')).
           url r = BASE_URL @ ''/entrez/eutils/efetch.fcgi''"
    by simp_all
  have "sent s' = take (length (sent s1)) (sent s') @ drop (length (sent s1)) (sent s')"
    by simp
  also have "\<dots> = sent s1 @ drop (length (sent s1)) (sent s')"
    by (simp only: tk)
  finally have split: "sent s' = sent s @ req # drop (length (sent s1)) (sent s')"
    by (simp add: s1)
  have d: "drop (length (sent s)) (sent s') = req # drop (length (sent s1)) (sent s')"
    by (subst split) simp
  have t: "take (length (sent s)) (sent s') = sent s"
    by (subst split) simp
  from len s1 t d dr ur win u show ?case unfolding w by simp
qed

text \<open>
  \<open>query\<close>: one search, then the windows. Up to 10,000 results the call returns the
  generator of the single window without running it.
\<close>

lemma query_small:
  assumes "m \<le> 10000"
  shows "query e q m s =
     (case getPubMedData e q m s of
        None \<Rightarrow> None
      | Some (Inl err, s1) \<Rightarrow> Some (Inl err, s1)
      | Some (Inr qd, s1) \<Rightarrow>
          Some (Inr (Generator qd 0 m),
                s1\<lparr>query_data := Some qd, articles := Some (Generator qd 0 m)\<rparr>))"
  using assms by (simp add: query_def and_then_def Let_def split: option.splits sum.splits)

lemma query_large:
  assumes "10000 < m"
  shows "query e q m s =
     (case getPubMedData e q m s of
        None \<Rightarrow> None
      | Some (Inl err, s1) \<Rightarrow> Some (Inl err, s1)
      | Some (Inr qd, s1) \<Rightarrow>
          (case chain_windows e qd (split_range m) (s1\<lparr>query_data := Some qd\<rparr>) of
             None \<Rightarrow> None
           | Some (Inl err, s2) \<Rightarrow> Some (Inl err, s2)
           | Some (Inr rs, s2) \<Rightarrow> Some (Inr (Listed rs), s2\<lparr>articles := Some (Listed rs)\<rparr>)))"
  using assms by (simp add: query_def and_then_def Let_def split: option.splits sum.splits)

lemma untouched_fields:
  "untouched s s' \<Longrightarrow> untouched s (s'\<lparr>query_data := x\<rparr>)"
  "untouched s s' \<Longrightarrow> untouched s (s'\<lparr>articles := y\<rparr>)"
  "untouched (s\<lparr>query_data := x\<rparr>) s' \<Longrightarrow> untouched s s'"
  by (simp_all add: untouched_def)

lemma query_untouched:
  assumes "query e q m s = Some (r, s')"
  shows "untouched s s'"
proof (cases "m \<le> 10000")
  case True
  from assms show ?thesis
    unfolding query_small [OF True]
    by (auto split: option.splits sum.splits
        dest!: getPubMedData_untouched simp: untouched_def)
next
  case False
  then have big: "10000 < m" by simp
  from assms obtain r1 s1 where g: "getPubMedData e q m s = Some (r1, s1)"
    unfolding query_large [OF big] by (auto split: option.splits)
  note u1 = getPubMedData_untouched [OF g]
  show ?thesis
  proof (cases r1)
    case (Inl err)
    with assms g u1 show ?thesis unfolding query_large [OF big] by simp
  next
    case (Inr qd)
    with assms g have "\<exists>r2 s2.
        chain_windows e qd (split_range m) (s1\<lparr>query_data := Some qd\<rparr>) = Some (r2, s2)
        \<and> (s' = s2 \<or> s' = s2\<lparr>articles := articles s'\<rparr>)"
      unfolding query_large [OF big] by (auto split: option.splits sum.splits)
    then obtain r2 s2 where
      c: "chain_windows e qd (split_range m) (s1\<lparr>query_data := Some qd\<rparr>) = Some (r2, s2)"
      and s': "s' = s2 \<or> s' = s2\<lparr>articles := articles s'\<rparr>"
      by blast
    from chain_windows_untouched [OF c] have "untouched s1 s2" by (rule untouched_fields(3))
    with u1 have "untouched s s2" by (rule untouched_trans)
    with s' untouched_fields(2) [of s s2 "articles s'"] show ?thesis by auto
  qed
qed

lemma query_returns:
  assumes "clock_advances e" "0 \<le> rateLimit s"
  shows "\<exists>r s'. query e q m s = Some (r, s')"
proof -
  from getPubMedData_returns [OF assms]
  obtain r1 s1 where g: "getPubMedData e q m s = Some (r1, s1)" by blast
  from getPubMedData_untouched [OF g] assms(2) have rl: "0 \<le> rateLimit s1"
    by (simp add: untouched_def)
  show ?thesis
  proof (cases "m \<le> 10000")
    case True
    with g show ?thesis unfolding query_small [OF True] by (cases r1) simp_all
  next
    case False
    then have big: "10000 < m" by simp
    show ?thesis
    proof (cases r1)
      case (Inl err)
      with g show ?thesis unfolding query_large [OF big] by simp
    next
      case (Inr qd)
      from rl have "0 \<le> rateLimit (s1\<lparr>query_data := Some qd\<rparr>)" by simp
      from chain_windows_returns [OF assms(1) this]
      obtain r2 s2 where
        "chain_windows e qd (split_range m) (s1\<lparr>query_data := Some qd\<rparr>) = Some (r2, s2)"
        by blast
      with g Inr show ?thesis unfolding query_large [OF big] by (cases r2) simp_all
    qed
  qed
qed

lemma consume_untouched: "consume e rs s = Some (r, s') \<Longrightarrow> untouched s s'"
  by (cases rs) (auto simp: untouched_refl dest: getArticlesEnv_untouched)

lemma consume_returns:
  "clock_advances e \<Longrightarrow> 0 \<le> rateLimit s \<Longrightarrow> \<exists>r s'. consume e rs s = Some (r, s')"
  by (cases rs) (simp_all add: getArticlesEnv_returns)

lemma run_call_untouched:
  assumes "run_call e c s = Some s'"
  shows "untouched s s'"
proof (cases c)
  case (Query q n)
  with assms obtain r1 s1 where g: "query e q n s = Some (r1, s1)"
    by (auto split: option.splits)
  note u1 = query_untouched [OF g]
  show ?thesis
  proof (cases r1)
    case (Inl err)
    with assms g Query u1 show ?thesis by simp
  next
    case (Inr rs)
    with assms g Query obtain r2 where "consume e rs s1 = Some (r2, s')" by auto
    from u1 consume_untouched [OF this] show ?thesis by (rule untouched_trans)
  qed
next
  case (Count q)
  with assms show ?thesis by (auto dest: getTotalResultsCount_untouched)
next
  case (PubMedData q n)
  with assms show ?thesis by (auto dest: getPubMedData_untouched)
next
  case (ArticlesEnv qd a b)
  with assms show ?thesis by (auto dest: getArticlesEnv_untouched)
qed

lemma run_calls_untouched: "run_calls e cs s = Some s' \<Longrightarrow> untouched s s'"
proof (induction cs arbitrary: s)
  case Nil
  then show ?case by (simp add: untouched_refl)
next
  case (Cons c cs)
  from Cons.prems obtain s1 where c: "run_call e c s = Some s1"
    and rest: "run_calls e cs s1 = Some s'"
    by (auto split: option.splits)
  from run_call_untouched [OF c] Cons.IH [OF rest] show ?case by (rule untouched_trans)
qed

lemma run_call_returns:
  assumes "clock_advances e" "0 \<le> rateLimit s"
  shows "\<exists>s'. run_call e c s = Some s'"
proof (cases c)
  case (Query q n)
  from query_returns [OF assms] obtain r1 s1 where g: "query e q n s = Some (r1, s1)"
    by blast
  from query_untouched [OF g] assms(2) have rl: "0 \<le> rateLimit s1"
    by (simp add: untouched_def)
  show ?thesis
  proof (cases r1)
    case (Inl err)
    with g Query show ?thesis by simp
  next
    case (Inr rs)
    from consume_returns [OF assms(1) rl] obtain r2 s2 where "consume e rs s1 = Some (r2, s2)"
      by blast
    with g Query Inr show ?thesis by simp
  qed
next
  case (Count q)
  with getTotalResultsCount_returns [OF assms, of q] show ?thesis by auto
next
  case (PubMedData q n)
  with getPubMedData_returns [OF assms, of q n] show ?thesis by auto
next
  case (ArticlesEnv qd a b)
  with getArticlesEnv_returns [OF assms, of qd a b] show ?thesis by auto
qed

lemma run_calls_returns:
  assumes "clock_advances e"
  shows "0 \<le> rateLimit s \<Longrightarrow> \<exists>s'. run_calls e cs s = Some s'"
proof (induction cs arbitrary: s)
  case Nil
  then show ?case by simp
next
  case (Cons c cs)
  from run_call_returns [OF assms Cons.prems] obtain s1 where c: "run_call e c s = Some s1"
    by blast
  from run_call_untouched [OF c] Cons.prems have "0 \<le> rateLimit s1"
    by (simp add: untouched_def)
  from Cons.IH [OF this] c show ?case by simp
qed

text \<open>
  C9. The template dictionary \<open>self.parameters\<close> is never modified by a call. After any
  sequence of calls of \<open>query\<close> (with its result consumed), \<open>getTotalResultsCount\<close>,
  \<open>_getPubMedData\<close> and \<open>_getArticlesEnv\<close> on a new client, whatever they return or
  raise, \<open>self.parameters\<close> is still the dictionary object made by \<open>__init__\<close> and its
  items are those \<open>__init__\<close> gave it: every call writes into a copy at a new address.
\<close>

theorem template_never_modified:
  assumes "run_calls e cs (init tool' email' api_key') = Some s'"
  shows "parameters s' = parameters (init tool' email' api_key')
    \<and> heap s' (parameters s') = template tool' email' api_key'
    \<and> heap s' (parameters s')
        = heap (init tool' email' api_key') (parameters (init tool' email' api_key'))"
proof -
  from run_calls_untouched [OF assms]
  have "parameters s' = 0" and "\<forall>a<1. heap s' a = heap (init tool' email' api_key') a"
    by (simp_all add: untouched_def init_def)
  then show ?thesis by (simp add: init_def)
qed

text \<open>
  A count, a small query, a query of three windows and a window fetched by hand, with
  an API key in the template: the four entries of the template are as they were.
\<close>

theorem template_never_modified_witness:
  "\<exists>s'. run_calls demo_env
          [Count ''cancer'', Query ''cancer'' 5, Query ''cancer'' 25000,
           ArticlesEnv \<lparr>query_key = Some ''1'', WebEnv = None\<rparr> 10 20]
          (init ''my_tool'' ''me@example.com'' (Some ''k3y'')) = Some s'
     \<and> parameters s' = 0
     \<and> heap s' 0 = [''tool'' \<mapsto> PStr ''my_tool'', ''email'' \<mapsto> PStr ''me@example.com'',
                      ''db'' \<mapsto> PStr ''pubmed'', ''api_key'' \<mapsto> PStr ''k3y'']
     \<and> heap s' 0 ''retmode'' = None \<and> heap s' 0 ''retmax'' = None"
proof -
  have "0 \<le> rateLimit (init ''my_tool'' ''me@example.com'' (Some ''k3y''))"
    by (simp add: init_def)
  from run_calls_returns [OF demo_clock_advances this]
  obtain s' where run: "run_calls demo_env
          [Count ''cancer'', Query ''cancer'' 5, Query ''cancer'' 25000,
           ArticlesEnv \<lparr>query_key = Some ''1'', WebEnv = None\<rparr> 10 20]
          (init ''my_tool'' ''me@example.com'' (Some ''k3y'')) = Some s'"
    by blast
  from template_never_modified [OF run]
  have "parameters s' = 0
     \<and> heap s' 0 = [''tool'' \<mapsto> PStr ''my_tool'', ''email'' \<mapsto> PStr ''me@example.com'',
                      ''db'' \<mapsto> PStr ''pubmed'', ''api_key'' \<mapsto> PStr ''k3y'']"
    by (auto simp: init_def template_def)
  with run show ?thesis by auto
qed

section \<open>The query as a whole\<close>

lemma demo_chain_ok:
  "chain_windows demo_env qd ws s = Some (r, s') \<Longrightarrow> \<exists>rs. r = Inr rs"
proof (induction ws arbitrary: s r s')
  case Nil
  then show ?case by auto
next
  case (Cons w ws)
  obtain a b where w: "w = (a, b)" by (cases w)
  from Cons.prems obtain r1 s1 where g: "getArticlesEnv demo_env qd a b s = Some (r1, s1)"
    unfolding w by (auto simp: and_then_def split: option.splits)
  from demo_fetch_ok [OF g] obtain rs1 where r1: "r1 = Inr rs1" by blast
  with Cons.prems g obtain r2 s2 where c: "chain_windows demo_env qd ws s1 = Some (r2, s2)"
    and r: "r = (case r2 of Inl err \<Rightarrow> Inl err | Inr rest \<Rightarrow> Inr (rs1 @ rest))"
    unfolding w by (auto simp: and_then_def split: option.splits sum.splits)
  from Cons.IH [OF c] r show ?case by auto
qed

lemma demo_query_ok:
  "\<exists>rs s'. query demo_env q m demo_client = Some (Inr rs, s')"
proof -
  from query_returns [OF demo_clock_advances demo_client_rateLimit]
  obtain r s' where run: "query demo_env q m demo_client = Some (r, s')" by blast
  from query_returns [OF demo_clock_advances demo_client_rateLimit] run
  have "\<exists>rs. r = Inr rs"
  proof (cases "m \<le> 10000")
    case True
    from run show ?thesis
      unfolding query_small [OF True]
      by (auto split: option.splits sum.splits dest: demo_search_ok)
  next
    case False
    then have big: "10000 < m" by simp
    from run obtain r1 s1 where g: "getPubMedData demo_env q m demo_client = Some (r1, s1)"
      unfolding query_large [OF big] by (auto split: option.splits)
    from demo_search_ok [OF g] obtain qd where r1: "r1 = Inr qd" by blast
    with run g obtain r2 s2 where
      c: "chain_windows demo_env qd (split_range m) (s1\<lparr>query_data := Some qd\<rparr>)
            = Some (r2, s2)"
      unfolding query_large [OF big] by (auto split: option.splits)
    from demo_chain_ok [OF c] obtain rs where "r2 = Inr rs" by blast
    with run g r1 c show ?thesis
      unfolding query_large [OF big] by auto
  qed
  with run show ?thesis by blast
qed

text \<open>
  C5. Up to 10,000 results, a query that returns has sent exactly one request, the
  search with \<open>retmax = max_results\<close>, and returns the generator of the one call
  \<open>_getArticlesEnv(query_data, 0, max_results)\<close>. That generator, run by the caller (when
  time goes on it returns or raises), sends exactly one more request: the fetch with
  \<open>retstart = 0\<close> and \<open>retmax = max_results\<close>, carrying the tokens of the session.
\<close>

theorem query_small_one_search_one_fetch:
  assumes "max_results \<le> 10000" "clock_advances e" "0 \<le> rateLimit s"
    and "query e q max_results s = Some (Inr rs, s1)"
  shows "\<exists>qd search fetch r s2.
      rs = Generator qd 0 max_results
    \<and> sent s1 = sent s @ [search]
    \<and> url search = BASE_URL @ ''/entrez/eutils/esearch.fcgi''
    \<and> params search ''term'' = Some (PStr q)
    \<and> params search ''retmax'' = Some (PInt max_results)
    \<and> consume e rs s1 = Some (r, s2)
    \<and> sent s2 = sent s @ [search, fetch]
    \<and> url fetch = BASE_URL @ ''/entrez/eutils/efetch.fcgi''
    \<and> params fetch ''retmax'' = Some (PInt max_results)
    \<and> params fetch ''retstart'' = Some (PInt 0)
    \<and> params fetch ''query_key'' = Some (token (query_key qd))
    \<and> params fetch ''WebEnv'' = Some (token (WebEnv qd))"
proof -
  from assms(4) obtain qd s0 where g: "getPubMedData e q max_results s = Some (Inr qd, s0)"
    and rs: "rs = Generator qd 0 max_results"
    and s1: "s1 = s0\<lparr>query_data := Some qd, articles := Some (Generator qd 0 max_results)\<rparr>"
    unfolding query_small [OF assms(1)]
    by (auto split: option.splits sum.splits)
  let ?search = "\<lparr>url = BASE_URL @ ''/entrez/eutils/esearch.fcgi'',
      params = (heap s (parameters s))(''term'' \<mapsto> PStr q, ''usehistory'' \<mapsto> PStr ''y'',
                    ''retmax'' \<mapsto> PInt max_results, ''retmode'' \<mapsto> PStr ''xml'')\<rparr>"
  from getPubMedData_Some [OF g] have snt0: "sent s0 = sent s @ [?search]"
    and rl0: "rateLimit s0 = rateLimit s"
    by (simp_all add: Let_def)
  from snt0 s1 have snt1: "sent s1 = sent s @ [?search]" by simp
  from rl0 s1 assms(3) have "0 \<le> rateLimit s1" by simp
  from getArticlesEnv_returns [OF assms(2) this]
  obtain r s2 where f: "getArticlesEnv e qd 0 max_results s1 = Some (r, s2)" by blast
  let ?fetch = "\<lparr>url = BASE_URL @ ''/entrez/eutils/efetch.fcgi'',
      params = (heap s1 (parameters s1))(''query_key'' \<mapsto> token (query_key qd),
                    ''WebEnv'' \<mapsto> token (WebEnv qd), ''retmax'' \<mapsto> PInt max_results,
                    ''retstart'' \<mapsto> PInt 0, ''retmode'' \<mapsto> PStr ''xml'')\<rparr>"
  from getArticlesEnv_Some [OF f] snt1 have snt2: "sent s2 = sent s @ [?search, ?fetch]"
    by (simp add: Let_def)
  from f rs have c: "consume e rs s1 = Some (r, s2)" by simp
  show ?thesis
    using rs snt1 c snt2
    by (intro exI [of _ qd] exI [of _ ?search] exI [of _ ?fetch] exI [of _ r] exI [of _ s2])
      simp
qed

text \<open>
  The scenario of the specification: \<open>query("cancer", 5)\<close> on a new client. One search
  with \<open>retmax = 5\<close>, then one fetch with \<open>retstart = 0\<close> and \<open>retmax = 5\<close>.
\<close>

theorem query_small_one_search_one_fetch_witness:
  "\<exists>rs s1 r s2. query demo_env ''cancer'' 5 demo_client = Some (Inr rs, s1)
     \<and> map url (sent s1) = [BASE_URL @ ''/entrez/eutils/esearch.fcgi'']
     \<and> consume demo_env rs s1 = Some (r, s2)
     \<and> map url (sent s2) = [BASE_URL @ ''/entrez/eutils/esearch.fcgi'',
                             BASE_URL @ ''/entrez/eutils/efetch.fcgi'']
     \<and> map (\<lambda>r. params r ''retmax'') (sent s2) = [Some (PInt 5), Some (PInt 5)]
     \<and> map (\<lambda>r. params r ''retstart'') (drop 1 (sent s2)) = [Some (PInt 0)]"
proof -
  have s0: "sent demo_client = []" by (simp add: demo_client_def init_def)
  from demo_query_ok obtain rs s1 where
    run: "query demo_env ''cancer'' 5 demo_client = Some (Inr rs, s1)" by blast
  have "(5::int) \<le> 10000" by simp
  from query_small_one_search_one_fetch [OF this demo_clock_advances demo_client_rateLimit run]
  show ?thesis using run unfolding s0 by auto
qed

text \<open>
  Above 10,000 results a query that returns has sent, after its search, one fetch for
  every window of \<open>split_range max_results\<close>, in the order of the list.
\<close>

lemma query_large_sent:
  assumes "10000 < m" "query e q m s = Some (Inr rs, s')"
  shows "map window_of (drop (Suc (length (sent s))) (sent s')) = map fetch_window (split_range m)"
proof -
  from assms obtain qd s1 rs2 s2 where g: "getPubMedData e q m s = Some (Inr qd, s1)"
    and c: "chain_windows e qd (split_range m) (s1\<lparr>query_data := Some qd\<rparr>) = Some (Inr rs2, s2)"
    and s': "s' = s2\<lparr>articles := Some (Listed rs2)\<rparr>"
    unfolding query_large [OF assms(1)]
    by (auto split: option.splits sum.splits)
  from getPubMedData_Some [OF g] have "length (sent s1) = Suc (length (sent s))"
    by (simp add: Let_def)
  with chain_windows_sent [OF c] s' show ?thesis by simp
qed

lemma split_range_25000:
  "split_range 25000 = [(0, 10000), (10000, 20000), (20000, 25000)]"
  by (simp add: split_range_def split_range_from.simps)

text \<open>
  C2, as the claim states it, fails: for \<open>max_results = 25000\<close> the windows are
  \<open>[0, 10000)\<close>, \<open>[10000, 20000)\<close> and \<open>[20000, 25000)\<close>, and the query sends a fetch that
  starts at index 20000.
\<close>

theorem query_fetches_beyond_20000:
  "query_windows 25000 = [(0, 10000), (10000, 20000), (20000, 25000)]
   \<and> (\<exists>rs s'. query demo_env ''cancer'' 25000 demo_client = Some (Inr rs, s')
         \<and> map window_of (drop 1 (sent s'))
             = [(Some (PInt 0), Some (PInt 10000)), (Some (PInt 10000), Some (PInt 20000)),
                (Some (PInt 20000), Some (PInt 25000))])"
proof -
  have s0: "sent demo_client = []" by (simp add: demo_client_def init_def)
  from demo_query_ok obtain rs s' where
    run: "query demo_env ''cancer'' 25000 demo_client = Some (Inr rs, s')" by blast
  have "(10000::int) < 25000" by simp
  from query_large_sent [OF this run]
  have "map window_of (drop 1 (sent s'))
      = [(Some (PInt 0), Some (PInt 10000)), (Some (PInt 10000), Some (PInt 20000)),
         (Some (PInt 20000), Some (PInt 25000))]"
    by (simp add: s0 split_range_25000 fetch_window_def)
  with run show ?thesis
    by (auto simp: query_windows_def split_range_25000)
qed

text \<open>
  C2, amended. For every \<open>max_results\<close> above 20,000 the windows that \<open>query\<close> fetches
  are those of \<open>split_range(max = max_results)\<close>: 20,000 is only the default of the
  parameter, and \<open>query\<close> passes its own \<open>max_results\<close>. When time goes on the query
  returns or raises; when it returns a result it has sent, after the search, one fetch
  per window in ascending order; the windows cover \<open>[0, max_results)\<close> and so reach the
  indices at and beyond 20,000. Nothing is cut off by the window list.
\<close>

theorem query_windows_follow_max_results:
  assumes "20000 < max_results" "clock_advances e" "0 \<le> rateLimit s"
  shows "\<exists>r s'. query e q max_results s = Some (r, s')
    \<and> (\<forall>rs. r = Inr rs \<longrightarrow>
          map window_of (drop (Suc (length (sent s))) (sent s'))
            = map fetch_window (query_windows max_results))
    \<and> query_windows max_results = split_range max_results
    \<and> (\<Union>(a, b) \<in> set (query_windows max_results). {a..<b}) = {0..<max_results}
    \<and> (\<exists>(a, b) \<in> set (query_windows max_results). a \<le> 20000 \<and> 20000 < b)"
proof -
  from assms(1) have big: "10000 < max_results" and pos: "0 < max_results" by simp_all
  from big have qw: "query_windows max_results = split_range max_results"
    by (simp add: query_windows_def)
  from chained_union [OF chained_query_windows [OF pos]]
  have un: "(\<Union>(a, b) \<in> set (query_windows max_results). {a..<b}) = {0..<max_results}" .
  from assms(1) have "20000 \<in> {0..<max_results}" by simp
  with un have "20000 \<in> (\<Union>(a, b) \<in> set (query_windows max_results). {a..<b})" by simp
  then obtain a b where "(a, b) \<in> set (query_windows max_results)" "a \<le> 20000" "20000 < b"
    by auto
  then have ex: "\<exists>(a, b) \<in> set (query_windows max_results). a \<le> 20000 \<and> 20000 < b"
    by (intro bexI [of _ "(a, b)"]) simp_all
  from query_returns [OF assms(2,3)]
  obtain r s' where run: "query e q max_results s = Some (r, s')" by blast
  have "\<forall>rs. r = Inr rs \<longrightarrow>
          map window_of (drop (Suc (length (sent s))) (sent s'))
            = map fetch_window (query_windows max_results)"
    using query_large_sent [OF big] run qw by auto
  with run qw un ex show ?thesis by blast
qed

theorem query_windows_follow_max_results_witness:
  "\<exists>rs s'. query demo_env ''cancer'' 25000 demo_client = Some (Inr rs, s')
     \<and> map window_of (drop 1 (sent s')) = map fetch_window (query_windows 25000)
     \<and> query_windows 25000 = split_range 25000
     \<and> (\<Union>(a, b) \<in> set (query_windows 25000). {a..<b}) = {0..<25000}
     \<and> (20000, 25000) \<in> set (query_windows 25000)"
proof -
  have s0: "sent demo_client = []" by (simp add: demo_client_def init_def)
  have "(20000::int) < 25000" by simp
  from query_windows_follow_max_results [OF this demo_clock_advances demo_client_rateLimit,
      of "''cancer''"]
  obtain r s' where run: "query demo_env ''cancer'' 25000 demo_client = Some (r, s')"
    and w: "\<forall>rs. r = Inr rs \<longrightarrow>
          map window_of (drop (Suc (length (sent demo_client))) (sent s'))
            = map fetch_window (query_windows 25000)"
    and rest: "query_windows 25000 = split_range 25000"
      "(\<Union>(a, b) \<in> set (query_windows 25000). {a..<b}) = {0..<25000}"
    by blast
  from demo_query_ok [of "''cancer''" 25000] run obtain rs where "r = Inr rs" by auto
  with run w rest show ?thesis
    by (auto simp: s0 split_range_25000)
qed

end
